theory Spec2Isabelle
  imports Complex_Main "HOL-Library.AList"
begin

section \<open>Eliza Town: the orchestration engine\<close>

text \<open>
  A shallow embedding of the orchestration core: the agent state machine (state.js), the
  movement controller (pathfinding.js), the tick loop (loop.js), the reply parser of the
  reasoning client (claude.js) and the cancel route of the submission surface.

  Conventions of the model.
  \<^item> A JavaScript number and a FLOAT column hold an IEEE 754 double: a value of type
    \<open>number\<close>. Every arithmetic result is rounded to the nearest double, ties to even.
  \<^item> \<open>undefined\<close> and \<open>null\<close> are both \<open>None\<close>; reading a property of either throws
    \<open>TypeError\<close>, which is a value of type \<open>error\<close>.
  \<^item> A thrown exception does not roll the store back: every operation returns the store as
    it was when the exception left it.
  \<^item> A table is the list of its rows in insertion order (the order of \<open>created_at\<close>).
  \<^item> \<open>console.log\<close>, \<open>console.warn\<close> and \<open>console.error\<close> are not modelled.
\<close>

subsection \<open>JavaScript numbers\<close>

text \<open>
  A number is a finite double, an infinity or \<open>NaN\<close>. A finite double is held as the real
  it denotes. The two zeros are one value: they differ only as divisors, and \<open>num_div\<close>
  takes a zero divisor as \<open>+0\<close>.
\<close>

datatype number = Num real | PosInfinity | NegInfinity | NaN

text \<open>The nearest integer, a tie going to the even one.\<close>

definition round_half_even :: "real \<Rightarrow> int" where
  "round_half_even y =
     (let f = \<lfloor>y\<rfloor>
      in if y - of_int f < 1 / 2 then f
         else if 1 / 2 < y - of_int f then f + 1
         else if even f then f else f + 1)"

text \<open>
  The spacing of the doubles around \<open>x\<close>: 53 significant bits, and the spacing of the
  subnormal numbers below \<open>2 powi (- 1022)\<close>.
\<close>

definition quantum :: "real \<Rightarrow> real" where
  "quantum x = 2 powi (max \<lfloor>log 2 \<bar>x\<bar>\<rfloor> (- 1022) - 52)"

definition round_double :: "real \<Rightarrow> real" where
  "round_double x = sgn x * (of_int (round_half_even (\<bar>x\<bar> / quantum x)) * quantum x)"

text \<open>The double of an exact result; a magnitude that rounds to \<open>2 ^ 1024\<close> overflows.\<close>

definition to_number :: "real \<Rightarrow> number" where
  "to_number x =
     (let v = round_double x
      in if 2 ^ 1024 \<le> v then PosInfinity
         else if v \<le> - (2 ^ 1024) then NegInfinity
         else Num v)"

text \<open>The infinity with the sign of \<open>s\<close>; \<open>NaN\<close> for no sign.\<close>

definition infinity_of :: "real \<Rightarrow> number" where
  "infinity_of s = (if s = 0 then NaN else if 0 < s then PosInfinity else NegInfinity)"

fun num_neg :: "number \<Rightarrow> number" where
  "num_neg (Num a) = Num (- a)"
| "num_neg PosInfinity = NegInfinity"
| "num_neg NegInfinity = PosInfinity"
| "num_neg NaN = NaN"

text \<open>The operators \<open>+\<close>, \<open>-\<close>, \<open>*\<close>, \<open>/\<close> and \<open><\<close>, and \<open>Math.sqrt\<close> and \<open>Math.min\<close>.\<close>

fun num_add :: "number \<Rightarrow> number \<Rightarrow> number" where
  "num_add (Num a) (Num b) = to_number (a + b)"
| "num_add NaN y = NaN"
| "num_add x NaN = NaN"
| "num_add PosInfinity NegInfinity = NaN"
| "num_add NegInfinity PosInfinity = NaN"
| "num_add PosInfinity y = PosInfinity"
| "num_add NegInfinity y = NegInfinity"
| "num_add (Num a) y = y"

definition num_sub :: "number \<Rightarrow> number \<Rightarrow> number" where
  "num_sub x y = num_add x (num_neg y)"

fun num_mul :: "number \<Rightarrow> number \<Rightarrow> number" where
  "num_mul (Num a) (Num b) = to_number (a * b)"
| "num_mul NaN y = NaN"
| "num_mul x NaN = NaN"
| "num_mul PosInfinity (Num b) = infinity_of b"
| "num_mul NegInfinity (Num b) = infinity_of (- b)"
| "num_mul (Num a) PosInfinity = infinity_of a"
| "num_mul (Num a) NegInfinity = infinity_of (- a)"
| "num_mul PosInfinity PosInfinity = PosInfinity"
| "num_mul NegInfinity NegInfinity = PosInfinity"
| "num_mul PosInfinity NegInfinity = NegInfinity"
| "num_mul NegInfinity PosInfinity = NegInfinity"

fun num_div :: "number \<Rightarrow> number \<Rightarrow> number" where
  "num_div (Num a) (Num b) = (if b = 0 then infinity_of a else to_number (a / b))"
| "num_div NaN y = NaN"
| "num_div x NaN = NaN"
| "num_div (Num a) y = Num 0"
| "num_div PosInfinity (Num b) = (if 0 \<le> b then PosInfinity else NegInfinity)"
| "num_div NegInfinity (Num b) = (if 0 \<le> b then NegInfinity else PosInfinity)"
| "num_div x y = NaN"

text \<open>\<open>Math.sqrt\<close> returns the double nearest to the square root.\<close>

fun num_sqrt :: "number \<Rightarrow> number" where
  "num_sqrt (Num a) = (if a < 0 then NaN else to_number (sqrt a))"
| "num_sqrt PosInfinity = PosInfinity"
| "num_sqrt NegInfinity = NaN"
| "num_sqrt NaN = NaN"

fun num_lt :: "number \<Rightarrow> number \<Rightarrow> bool" where
  "num_lt (Num a) (Num b) = (a < b)"
| "num_lt NaN y = False"
| "num_lt x NaN = False"
| "num_lt x NegInfinity = False"
| "num_lt PosInfinity y = False"
| "num_lt x y = True"

fun Math_min :: "number \<Rightarrow> number \<Rightarrow> number" where
  "Math_min (Num a) (Num b) = Num (min a b)"
| "Math_min NaN y = NaN"
| "Math_min x NaN = NaN"
| "Math_min NegInfinity y = NegInfinity"
| "Math_min x NegInfinity = NegInfinity"
| "Math_min PosInfinity y = y"
| "Math_min x PosInfinity = x"

text \<open>\<open>v || 0\<close> on a number: the falsy numbers are zero and \<open>NaN\<close>.\<close>

definition or_0 :: "number \<Rightarrow> number" where
  "or_0 v = (if v = Num 0 \<or> v = NaN then Num 0 else v)"

subsection \<open>Agent state machine (state.js)\<close>

datatype AgentStatus = IDLE | TRAVELING | WORKING | CHATTING | WAITING | BLOCKED

datatype AgentEvents =
  ASSIGN_TASK | START_TRAVEL | ARRIVE | START_WORK | COMPLETE_WORK
  | REQUEST_CHAT | END_CHAT | BLOCK | UNBLOCK

type_synonym uuid = string

record point =
  p_x :: number
  p_y :: number
  p_z :: "number option"

text \<open>The object handed to the listeners of the \<open>transition\<close> event.\<close>

record payload =
  p_taskId :: "uuid option"
  p_subtaskId :: "uuid option"
  p_hub :: "string option"
  p_position :: "point option"
  p_doing :: "string option"
  p_withAgent :: "string option"

definition no_payload :: payload where
  "no_payload = \<lparr>p_taskId = None, p_subtaskId = None, p_hub = None, p_position = None,
     p_doing = None, p_withAgent = None\<rparr>"

record transition_event =
  oldStatus :: AgentStatus
  newStatus :: AgentStatus
  event :: AgentEvents
  event_payload :: payload

text \<open>
  The class \<open>AgentState\<close>. The listeners are callbacks; what \<open>emit\<close> hands them is
  recorded in \<open>notified\<close>, oldest first.
\<close>

record AgentState =
  agentId :: uuid
  agentType :: string
  status :: AgentStatus
  currentHub :: "string option"
  targetHub :: "string option"
  currentTask :: "uuid option"
  currentSubtask :: "uuid option"
  position :: point
  doing :: "string option"
  chattingWith :: "string option"
  notified :: "transition_event list"

text \<open>The table \<open>transitions\<close>: one equation per entry, every other pair is absent.\<close>

fun transitions :: "AgentStatus \<Rightarrow> AgentEvents \<Rightarrow> AgentStatus option" where
  "transitions IDLE ASSIGN_TASK = Some TRAVELING"
| "transitions IDLE START_TRAVEL = Some TRAVELING"
| "transitions IDLE REQUEST_CHAT = Some CHATTING"
| "transitions TRAVELING ARRIVE = Some IDLE"
| "transitions WORKING COMPLETE_WORK = Some IDLE"
| "transitions WORKING REQUEST_CHAT = Some CHATTING"
| "transitions WORKING BLOCK = Some BLOCKED"
| "transitions CHATTING END_CHAT = Some IDLE"
| "transitions WAITING UNBLOCK = Some WORKING"
| "transitions BLOCKED UNBLOCK = Some WORKING"
| "transitions _ _ = None"

definition canTransition :: "AgentState \<Rightarrow> AgentEvents \<Rightarrow> AgentStatus option" where
  "canTransition s ev = transitions (status s) ev"

text \<open>The \<open>switch\<close> of \<open>transition\<close>: the fields each event updates.\<close>

fun apply_event :: "AgentEvents \<Rightarrow> payload \<Rightarrow> AgentState \<Rightarrow> AgentState" where
  "apply_event ASSIGN_TASK p s =
     s\<lparr>currentTask := p_taskId p, currentSubtask := p_subtaskId p, targetHub := p_hub p\<rparr>"
| "apply_event START_TRAVEL p s = s\<lparr>targetHub := p_hub p\<rparr>"
| "apply_event ARRIVE p s =
     s\<lparr>currentHub := targetHub s, targetHub := None,
       position := (case p_position p of Some q \<Rightarrow> q | None \<Rightarrow> position s)\<rparr>"
| "apply_event START_WORK p s = s\<lparr>doing := p_doing p\<rparr>"
| "apply_event COMPLETE_WORK p s = s\<lparr>currentSubtask := None, doing := None\<rparr>"
| "apply_event REQUEST_CHAT p s = s\<lparr>chattingWith := p_withAgent p\<rparr>"
| "apply_event END_CHAT p s = s\<lparr>chattingWith := None\<rparr>"
| "apply_event BLOCK p s = s"
| "apply_event UNBLOCK p s = s"

text \<open>\<open>transition\<close> returns its boolean together with the object after the call.\<close>

definition transition :: "AgentState \<Rightarrow> AgentEvents \<Rightarrow> payload \<Rightarrow> bool \<times> AgentState" where
  "transition s ev p =
     (case canTransition s ev of
        None \<Rightarrow> (False, s)
      | Some new \<Rightarrow>
          (let old = status s;
               s1 = apply_event ev p (s\<lparr>status := new\<rparr>)
           in (True, s1\<lparr>notified := notified s1 @
                 [\<lparr>oldStatus = old, newStatus = new, event = ev, event_payload = p\<rparr>]\<rparr>)))"

definition arrived :: "AgentState \<Rightarrow> point option \<Rightarrow> bool \<times> AgentState" where
  "arrived s pos = transition s ARRIVE (no_payload\<lparr>p_position := pos\<rparr>)"

definition completeWork :: "AgentState \<Rightarrow> bool \<times> AgentState" where
  "completeWork s = transition s COMPLETE_WORK no_payload"

text \<open>
  The table of section 4.2 of the specification, row by row, as triples
  (from, event, to); a row naming two events or two states stands for both.
\<close>

definition spec_table :: "(AgentStatus \<times> AgentEvents \<times> AgentStatus) list" where
  "spec_table =
     [(IDLE, ASSIGN_TASK, TRAVELING), (IDLE, START_TRAVEL, TRAVELING),
      (IDLE, REQUEST_CHAT, CHATTING),
      (TRAVELING, ARRIVE, IDLE),
      (WORKING, COMPLETE_WORK, IDLE),
      (WORKING, REQUEST_CHAT, CHATTING),
      (WORKING, BLOCK, BLOCKED),
      (CHATTING, END_CHAT, IDLE),
      (WAITING, UNBLOCK, WORKING), (BLOCKED, UNBLOCK, WORKING)]"

subsection \<open>Movement controller (pathfinding.js)\<close>

definition distance :: "point \<Rightarrow> point \<Rightarrow> number" where
  "distance p1 p2 =
     (let dx = num_sub (p_x p2) (p_x p1); dy = num_sub (p_y p2) (p_y p1)
      in num_sqrt (num_add (num_mul dx dx) (num_mul dy dy)))"

definition lerp :: "number \<Rightarrow> number \<Rightarrow> number \<Rightarrow> number" where
  "lerp a b t = num_add a (num_mul (num_sub b a) t)"

text \<open>\<open>p.z || 0\<close>: a missing coordinate counts as 0.\<close>

definition z_or_0 :: "point \<Rightarrow> number" where
  "z_or_0 p = (case p_z p of None \<Rightarrow> Num 0 | Some v \<Rightarrow> or_0 v)"

definition lerpPoint :: "point \<Rightarrow> point \<Rightarrow> number \<Rightarrow> point" where
  "lerpPoint p1 p2 t =
     \<lparr>p_x = lerp (p_x p1) (p_x p2) t, p_y = lerp (p_y p1) (p_y p2) t,
      p_z = Some (lerp (z_or_0 p1) (z_or_0 p2) t)\<rparr>"

text \<open>The literal \<open>0.1\<close> is the double nearest to one tenth.\<close>

definition arrivalThreshold :: number where
  "arrivalThreshold = to_number (1 / 10)"

text \<open>
  \<open>moveAgentToHub\<close> returns its boolean together with the agent row it mutated.
\<close>

subsection \<open>Store and events\<close>

datatype error = TypeError | Error string | ApiError string | IOError
  | ForeignKeyViolation | NotNullViolation | UniqueViolation

datatype 'a outcome = Return 'a | Throw error

datatype TaskStatus =
  T_pending | T_planning | T_in_progress | T_completed | T_failed | T_cancelled

datatype SubtaskStatus = S_pending | S_assigned | S_in_progress | S_completed | S_failed

text \<open>A value produced by \<open>JSON.parse\<close>; \<open>JObj\<close> lists the own properties of an object.\<close>

datatype json = JNull | JBool bool | JNum real | JStr string | JArr "json list"
  | JObj "(string \<times> json) list"

text \<open>
  The rows. Columns that no modelled statement reads are left out (names, colours,
  timestamps other than \<open>read_at\<close>, which is kept as the flag "is not NULL").
  A NULL coordinate \<open>position_x\<close> or \<open>position_y\<close> of an agent counts as 0 in the
  arithmetic that reads it; the row holds 0 for it.
\<close>

record hub =
  h_id :: string
  h_position_x :: number
  h_position_y :: number

record agent =
  a_id :: uuid
  a_type :: string
  a_current_hub :: "string option"
  a_target_hub :: "string option"
  a_status :: AgentStatus
  a_doing :: "string option"
  a_position_x :: number
  a_position_y :: number
  a_position_z :: "number option"

record task =
  t_id :: uuid
  t_prompt :: string
  t_user_id :: string
  t_status :: TaskStatus
  t_download_url :: "string option"
  t_preview_url :: "string option"

record subtask =
  s_id :: uuid
  s_task_id :: uuid
  s_agent_id :: uuid
  s_agent_type :: string
  s_description :: string
  s_output :: "string option"
  s_status :: SubtaskStatus
  s_sequence :: int
  s_hub_id :: "string option"

record message =
  m_id :: uuid
  m_task_id :: uuid
  m_from_agent_id :: uuid
  m_to_agent_id :: uuid
  m_from_agent_type :: string
  m_to_agent_type :: string
  m_content :: string
  m_hub_id :: "string option"
  m_read_at :: bool

text \<open>What \<open>emit\<close> publishes on the websocket channel.\<close>

datatype ws_event =
    task_created uuid string
  | task_started uuid string
  | task_cancelled uuid
  | task_complete uuid string string
  | agent_arrived string string number number
  | agent_position string point
  | agent_status string AgentStatus "string option"
  | agent_speak string json "json option"
  | agent_think string json
  | agent_move string "number \<times> number" "number \<times> number" string
  | agent_chat_request string json "json option"

text \<open>A pending \<open>setTimeout\<close>: its delay in milliseconds and what it will run.\<close>

datatype timer = NextTick nat | DelayedEmit nat ws_event

record active_task =
  at_task :: task
  at_phase :: string
  at_waitingFor :: uuid

text \<open>
  The database, the websocket channel, the timer queue and the fields of the
  \<open>Orchestrator\<close> singleton. The two \<open>Map\<close>s are association lists. \<open>calls\<close> counts
  the reasoning calls made so far and \<open>uuids\<close> the identifiers drawn so far.
\<close>

record world =
  hubs :: "hub list"
  agents :: "agent list"
  tasks :: "task list"
  subtasks :: "subtask list"
  messages :: "message list"
  emitted :: "ws_event list"
  timers :: "timer list"
  running :: bool
  agentStates :: "(uuid \<times> AgentState) list"
  activeTasks :: "(uuid \<times> active_task) list"
  calls :: nat
  uuids :: nat

text \<open>
  What the core consumes from outside the repository: the completion service behind
  \<open>callAgent\<close> (its answer may depend on how many calls came before), the built-in
  \<open>JSON.parse\<close> (\<open>None\<close> when it throws), the database driver's rendering of a
  parameter that is not a string, the file system behind \<open>saveTaskFiles\<close> (\<open>Some e\<close> when
  it throws) and the generator of row identifiers.
\<close>

record ext =
  anthropic :: "nat \<Rightarrow> string \<Rightarrow> string \<Rightarrow> string outcome"
  JSON_parse :: "string \<Rightarrow> json option"
  pg_text :: "json \<Rightarrow> string"
  saveTaskFiles :: "uuid \<Rightarrow> json \<Rightarrow> uuid \<Rightarrow> error option"
  uuid_generate_v4 :: "nat \<Rightarrow> uuid"

definition TICK_INTERVAL :: nat where
  "TICK_INTERVAL = 1000"

definition AGENT_SPEED :: number where
  "AGENT_SPEED = Num 2"

definition town_square :: string where
  "town_square = ''town_square''"

definition planning_room :: string where
  "planning_room = ''planning_room''"

definition emit :: "ws_event \<Rightarrow> world \<Rightarrow> world" where
  "emit e w = w\<lparr>emitted := emitted w @ [e]\<rparr>"

text \<open>\<open>UPDATE table SET ... WHERE ...\<close>: every row the condition selects is rewritten.\<close>

definition update_agents :: "(agent \<Rightarrow> bool) \<Rightarrow> (agent \<Rightarrow> agent) \<Rightarrow> world \<Rightarrow> world" where
  "update_agents P f w = w\<lparr>agents := map (\<lambda>a. if P a then f a else a) (agents w)\<rparr>"

definition update_tasks :: "(task \<Rightarrow> bool) \<Rightarrow> (task \<Rightarrow> task) \<Rightarrow> world \<Rightarrow> world" where
  "update_tasks P f w = w\<lparr>tasks := map (\<lambda>t. if P t then f t else t) (tasks w)\<rparr>"

definition update_subtasks :: "(subtask \<Rightarrow> bool) \<Rightarrow> (subtask \<Rightarrow> subtask) \<Rightarrow> world \<Rightarrow> world" where
  "update_subtasks P f w = w\<lparr>subtasks := map (\<lambda>s. if P s then f s else s) (subtasks w)\<rparr>"

definition update_messages :: "(message \<Rightarrow> bool) \<Rightarrow> (message \<Rightarrow> message) \<Rightarrow> world \<Rightarrow> world" where
  "update_messages P f w = w\<lparr>messages := map (\<lambda>m. if P m then f m else m) (messages w)\<rparr>"

text \<open>\<open>SELECT ... WHERE key = $1\<close> followed by \<open>rows[0]\<close>: the first match or \<open>undefined\<close>.\<close>

definition getAgent :: "world \<Rightarrow> uuid \<Rightarrow> agent option" where
  "getAgent w aid = find (\<lambda>a. a_id a = aid) (agents w)"

definition getAgentByType :: "world \<Rightarrow> string \<Rightarrow> agent option" where
  "getAgentByType w ty = find (\<lambda>a. a_type a = ty) (agents w)"

definition getHub :: "world \<Rightarrow> string \<Rightarrow> hub option" where
  "getHub w hid = find (\<lambda>h. h_id h = hid) (hubs w)"

text \<open>A loop over rows fetched beforehand; the first exception leaves the loop.\<close>

fun for_each :: "'a list \<Rightarrow> ('a \<Rightarrow> world \<Rightarrow> unit outcome \<times> world) \<Rightarrow> world \<Rightarrow> unit outcome \<times> world" where
  "for_each [] f w = (Return (), w)"
| "for_each (x # xs) f w =
     (case f x w of
        (Throw e, w') \<Rightarrow> (Throw e, w')
      | (Return _, w') \<Rightarrow> for_each xs f w')"

text \<open>Sequencing of two awaited calls.\<close>

definition and_then :: "(world \<Rightarrow> unit outcome \<times> world) \<Rightarrow> (world \<Rightarrow> unit outcome \<times> world)
    \<Rightarrow> world \<Rightarrow> unit outcome \<times> world" where
  "and_then m k w =
     (case m w of (Throw e, w') \<Rightarrow> (Throw e, w') | (Return _, w') \<Rightarrow> k w')"

subsection \<open>Movement\<close>

definition getAgentPosition :: "agent \<Rightarrow> point" where
  "getAgentPosition a =
     \<lparr>p_x = a_position_x a, p_y = a_position_y a,
      p_z = Some (case a_position_z a of None \<Rightarrow> Num 0 | Some v \<Rightarrow> or_0 v)\<rparr>"

definition moveAgentToHub :: "agent \<Rightarrow> hub \<Rightarrow> number \<Rightarrow> number \<Rightarrow> bool \<times> agent" where
  "moveAgentToHub a h speed deltaTime =
     (let currentPos = \<lparr>p_x = a_position_x a, p_y = a_position_y a, p_z = None\<rparr>;
          targetPos = \<lparr>p_x = h_position_x h, p_y = h_position_y h, p_z = None\<rparr>;
          dist = distance currentPos targetPos
      in if num_lt dist arrivalThreshold then (True, a)
         else
           (let moveDistance = num_mul speed deltaTime;
                t = Math_min (num_div moveDistance dist) (Num 1);
                newPos = lerpPoint currentPos targetPos t
            in (False, a\<lparr>a_position_x := p_x newPos, a_position_y := p_y newPos\<rparr>)))"

text \<open>
  \<open>assignAgentToHub\<close>. The column \<open>target_hub\<close> references \<open>hubs(id)\<close>, so the
  \<open>UPDATE\<close> is refused for a hub that is not in the registry.
\<close>

definition assignAgentToHub :: "uuid \<Rightarrow> string \<Rightarrow> world \<Rightarrow> unit outcome \<times> world" where
  "assignAgentToHub aid hid w =
     (case getAgent w aid of
        None \<Rightarrow> (Throw TypeError, w)
      | Some a \<Rightarrow>
          if a_current_hub a = Some hid then (Return (), w)
          else if getHub w hid = None then (Throw ForeignKeyViolation, w)
          else
            (let w1 = update_agents (\<lambda>r. a_id r = aid)
                        (\<lambda>r. r\<lparr>a_target_hub := Some hid, a_status := TRAVELING\<rparr>) w
             in case getHub w1 hid of
                  None \<Rightarrow> (Throw TypeError, w1)
                | Some h \<Rightarrow>
                    (Return (),
                     emit (agent_move (a_type a) (a_position_x a, a_position_y a)
                             (h_position_x h, h_position_y h) hid) w1)))"

text \<open>One iteration of the loop of \<open>updateAgentPositions\<close>, for one selected row.\<close>

definition updateAgentPosition :: "agent \<Rightarrow> world \<Rightarrow> unit outcome \<times> world" where
  "updateAgentPosition a w =
     (case (case a_target_hub a of None \<Rightarrow> None | Some t \<Rightarrow> getHub w t) of
        None \<Rightarrow> (Throw TypeError, w)
      | Some h \<Rightarrow>
          (case moveAgentToHub a h AGENT_SPEED
                  (num_div (Num (real TICK_INTERVAL)) (Num 1000)) of
             (True, _) \<Rightarrow>
               (let w1 = update_agents (\<lambda>r. a_id r = a_id a)
                           (\<lambda>r. r\<lparr>a_current_hub := a_target_hub r, a_target_hub := None,
                                 a_status := IDLE, a_position_x := h_position_x h,
                                 a_position_y := h_position_y h\<rparr>) w;
                    w2 = emit (agent_arrived (a_type a) (h_id h) (h_position_x h) (h_position_y h)) w1
                in (Return (),
                    (case map_of (agentStates w2) (a_id a) of
                       None \<Rightarrow> w2
                     | Some st \<Rightarrow>
                         w2\<lparr>agentStates :=
                              AList.update (a_id a) (snd (arrived st None)) (agentStates w2)\<rparr>)))
           | (False, a') \<Rightarrow>
               (let pos = getAgentPosition a';
                    w1 = update_agents (\<lambda>r. a_id r = a_id a)
                           (\<lambda>r. r\<lparr>a_position_x := p_x pos, a_position_y := p_y pos\<rparr>) w
                in (Return (), emit (agent_position (a_type a) pos) w1))))"

definition updateAgentPositions :: "world \<Rightarrow> unit outcome \<times> world" where
  "updateAgentPositions w =
     for_each (filter (\<lambda>a. a_target_hub a \<noteq> None \<and> a_status a = TRAVELING) (agents w))
       updateAgentPosition w"

subsection \<open>Intake\<close>

definition processPendingTask :: "task \<Rightarrow> world \<Rightarrow> unit outcome \<times> world" where
  "processPendingTask t w =
     (let w1 = update_tasks (\<lambda>r. t_id r = t_id t) (\<lambda>r. r\<lparr>t_status := T_planning\<rparr>) w
      in case getAgentByType w1 ''planner'' of
           None \<Rightarrow> (Throw TypeError, w1)
         | Some planner \<Rightarrow>
             (case assignAgentToHub (a_id planner) planning_room w1 of
                (Throw e, w2) \<Rightarrow> (Throw e, w2)
              | (Return _, w2) \<Rightarrow>
                  (let w3 = emit (task_started (t_id t) ''planner'') w2
                   in (Return (),
                       w3\<lparr>activeTasks :=
                            AList.update (t_id t)
                              \<lparr>at_task = t, at_phase = ''planning'', at_waitingFor = a_id planner\<rparr>
                              (activeTasks w3)\<rparr>))))"

definition processPendingTasks :: "world \<Rightarrow> unit outcome \<times> world" where
  "processPendingTasks w =
     for_each (take 5 (filter (\<lambda>t. t_status t = T_pending) (tasks w))) processPendingTask w"

subsection \<open>Replies of the reasoning call\<close>

text \<open>
  \<open>callAgent\<close> of claude.js: a role without an entry in \<open>agentConfigs\<close> is refused before
  the service is called.
\<close>

definition agentConfigs :: "string list" where
  "agentConfigs = [''planner'', ''designer'', ''coder'', ''reviewer'']"

definition callAgent :: "ext \<Rightarrow> nat \<Rightarrow> string \<Rightarrow> string \<Rightarrow> string outcome" where
  "callAgent x n agentTy prompt =
     (if agentTy \<notin> set agentConfigs then Throw (Error ''Unknown agent type'')
      else anthropic x n agentTy prompt)"

text \<open>\<open>Orchestrator.parseAgentResponse\<close> of loop.js.\<close>

definition parseAgentResponse :: "ext \<Rightarrow> string \<Rightarrow> json" where
  "parseAgentResponse x response =
     (case JSON_parse x response of
        Some v \<Rightarrow> v
      | None \<Rightarrow> JObj [(''output'', JStr response)])"

text \<open>
  The match of \<open>/\{[\s\S]*\}/\<close>: from the first opening brace to the last closing brace
  after it.
\<close>

definition json_block :: "string \<Rightarrow> string option" where
  "json_block response =
     (let from_open = dropWhile (\<lambda>c. c \<noteq> CHR ''{'') response;
          back = dropWhile (\<lambda>c. c \<noteq> CHR ''}'') (rev from_open)
      in if back = [] then None else Some (rev back))"

text \<open>\<open>parseAgentResponse\<close> of claude.js, which the agent worker uses.\<close>

definition claude_parseAgentResponse :: "ext \<Rightarrow> string \<Rightarrow> json" where
  "claude_parseAgentResponse x response =
     (let raw = JObj [(''output'', JStr response), (''saying'', JNull), (''thinking'', JNull),
                      (''doing'', JNull)]
      in case json_block response of
           None \<Rightarrow> raw
         | Some block \<Rightarrow> (case JSON_parse x block of Some v \<Rightarrow> v | None \<Rightarrow> raw))"

text \<open>
  Reading a property of a value that is not \<open>null\<close>: an own property of an object, and
  \<open>undefined\<close> for the fields the core reads on any other value.
\<close>

fun field :: "json \<Rightarrow> string \<Rightarrow> json option" where
  "field (JObj kvs) k = map_of kvs k"
| "field _ k = None"

fun truthy :: "json \<Rightarrow> bool" where
  "truthy JNull = False"
| "truthy (JBool b) = b"
| "truthy (JNum n) = (n \<noteq> 0)"
| "truthy (JStr s) = (s \<noteq> [])"
| "truthy (JArr _) = True"
| "truthy (JObj _) = True"

text \<open>
  \<open>v.length > 0\<close> for a truthy \<open>v\<close>. An own property \<open>length\<close> that is a string, an array
  or an object would be coerced to a number by JavaScript; the model takes the comparison
  to fail for those.
\<close>

fun length_positive :: "json \<Rightarrow> bool" where
  "length_positive (JArr xs) = (xs \<noteq> [])"
| "length_positive (JStr s) = (s \<noteq> [])"
| "length_positive (JObj kvs) =
     (case map_of kvs ''length'' of
        Some (JNum n) \<Rightarrow> n > 0
      | Some (JBool b) \<Rightarrow> b
      | _ \<Rightarrow> False)"
| "length_positive _ = False"

text \<open>A query parameter: a string goes as it is, anything else as the driver renders it.\<close>

definition param_text :: "ext \<Rightarrow> json \<Rightarrow> string" where
  "param_text x v = (case v of JStr s \<Rightarrow> s | _ \<Rightarrow> pg_text x v)"

subsection \<open>Completion\<close>

definition PREVIEW_URL :: string where
  "PREVIEW_URL = ''http://localhost:3000/preview''"

definition packageResult :: "uuid \<Rightarrow> string \<times> string" where
  "packageResult taskId = (''/downloads/'' @ taskId @ ''.zip'', PREVIEW_URL @ ''/'' @ taskId)"

definition celebrateCompletion :: "world \<Rightarrow> unit outcome \<times> world" where
  "celebrateCompletion w =
     (case for_each (agents w) (\<lambda>a. assignAgentToHub (a_id a) town_square) w of
        (Throw e, w1) \<Rightarrow> (Throw e, w1)
      | (Return _, w1) \<Rightarrow>
          (Return (),
           w1\<lparr>timers := timers w1 @
                 [DelayedEmit 1000 (agent_speak ''coder'' (JStr ''Shipped!'') None),
                  DelayedEmit 1500 (agent_speak ''designer'' (JStr ''Looks great!'') None),
                  DelayedEmit 2000 (agent_speak ''reviewer'' (JStr ''Clean code!'') None),
                  DelayedEmit 2500 (agent_speak ''planner'' (JStr ''Good work team!'') None)]\<rparr>))"

definition checkTaskCompletion :: "uuid \<Rightarrow> world \<Rightarrow> unit outcome \<times> world" where
  "checkTaskCompletion taskId w =
     (if length (filter (\<lambda>s. s_task_id s = taskId \<and> s_status s \<noteq> S_completed) (subtasks w)) = 0
      then
        (let (downloadUrl, previewUrl) = packageResult taskId;
             w1 = update_tasks (\<lambda>t. t_id t = taskId)
                    (\<lambda>t. t\<lparr>t_status := T_completed, t_download_url := Some downloadUrl,
                          t_preview_url := Some previewUrl\<rparr>) w;
             w2 = emit (task_complete taskId downloadUrl previewUrl) w1
         in celebrateCompletion w2)
      else (Return (), w))"

subsection \<open>Help requests\<close>

text \<open>
  \<open>requestAgentHelp\<close>. The column \<open>content\<close> is \<open>NOT NULL\<close>, \<open>id\<close> is the primary key and
  \<open>hub_id\<close> references \<open>hubs(id)\<close>, so the \<open>INSERT\<close> is refused for a missing topic, for
  an identifier that a message already has, and for a missing town square.
\<close>

definition requestAgentHelp ::
    "ext \<Rightarrow> agent \<Rightarrow> json \<Rightarrow> json option \<Rightarrow> uuid \<Rightarrow> world \<Rightarrow> unit outcome \<times> world" where
  "requestAgentHelp x fromAgent toAgentType topic taskId w =
     (case getAgentByType w (param_text x toAgentType) of
        None \<Rightarrow> (Throw TypeError, w)
      | Some toAgent \<Rightarrow>
          (case (case topic of None \<Rightarrow> None | Some JNull \<Rightarrow> None
                   | Some v \<Rightarrow> Some (param_text x v)) of
             None \<Rightarrow> (Throw NotNullViolation, w)
           | Some content \<Rightarrow>
               if uuid_generate_v4 x (uuids w) \<in> m_id ` set (messages w)
               then (Throw UniqueViolation, w\<lparr>uuids := uuids w + 1\<rparr>)
               else if getHub w town_square = None then (Throw ForeignKeyViolation, w)
               else
                 (let w1 = w\<lparr>messages := messages w @
                              [\<lparr>m_id = uuid_generate_v4 x (uuids w), m_task_id = taskId,
                                m_from_agent_id = a_id fromAgent, m_to_agent_id = a_id toAgent,
                                m_from_agent_type = a_type fromAgent,
                                m_to_agent_type = param_text x toAgentType,
                                m_content = content, m_hub_id = Some town_square,
                                m_read_at = False\<rparr>],
                            uuids := uuids w + 1\<rparr>
                  in and_then (assignAgentToHub (a_id fromAgent) town_square)
                       (and_then (assignAgentToHub (a_id toAgent) town_square)
                          (\<lambda>w2. (Return (),
                             emit (agent_chat_request (a_type fromAgent) toAgentType topic) w2)))
                       w1)))"

subsection \<open>Work dispatch\<close>

text \<open>
  \<open>buildContext\<close>: an object keyed by role; a later row of the same role overwrites the
  earlier value and keeps the key's place.
\<close>

definition buildContext :: "world \<Rightarrow> uuid \<Rightarrow> int \<Rightarrow> (string \<times> string option) list" where
  "buildContext w taskId beforeSequence =
     fold (\<lambda>row ctx. AList.update (s_agent_type row) (s_output row) ctx)
       (sort_key s_sequence
          (filter (\<lambda>s. s_task_id s = taskId \<and> s_sequence s < beforeSequence
                       \<and> s_status s = S_completed) (subtasks w)))
       []"

fun previous_work :: "(string \<times> string option) list \<Rightarrow> string outcome" where
  "previous_work [] = Return []"
| "previous_work ((a, None) # rest) = Throw TypeError"
| "previous_work ((a, Some out) # rest) =
     (case previous_work rest of
        Throw e \<Rightarrow> Throw e
      | Return others \<Rightarrow> Return (''- '' @ a @ '': '' @ take 500 out @ [CHR 0x0A] @ others))"

definition buildPrompt :: "subtask \<Rightarrow> (string \<times> string option) list \<Rightarrow> string outcome" where
  "buildPrompt st ctx =
     (let head = ''Task: '' @ s_description st @ [CHR 0x0A, CHR 0x0A]
      in if ctx = [] then Return (head @ ''Complete your part of this task.'')
         else
           (case previous_work ctx of
              Throw e \<Rightarrow> Throw e
            | Return lines \<Rightarrow>
                Return (head @ ''Previous work:'' @ [CHR 0x0A] @ lines @ [CHR 0x0A]
                        @ ''Complete your part of this task.'')))"

definition getStartingMessage :: "string \<Rightarrow> string" where
  "getStartingMessage agentTy =
     (case map_of [(''planner'', ''Let me break this down...''),
                   (''designer'', ''Thinking about the visuals...''),
                   (''coder'', ''Time to write some code...''),
                   (''reviewer'', ''Let me check this...'')] agentTy of
        Some msg \<Rightarrow> msg
      | None \<Rightarrow> ''On it!'')"

text \<open>
  \<open>executeSubtask\<close> is suspended once, at \<open>await callAgent\<close>. \<open>executeSubtask_begin\<close> is
  the part before the call, \<open>handleReply\<close> the body of the \<open>try\<close> after the call has
  returned, and \<open>executeSubtask_resume\<close> everything from the return of the call on.
  \<open>parsed.thinking\<close> is the first property read: it throws when the reply parsed to
  \<open>null\<close>, and no later read can throw.
\<close>

definition executeSubtask_begin :: "subtask \<Rightarrow> world \<Rightarrow> (agent \<times> string) outcome \<times> world" where
  "executeSubtask_begin st w =
     (case getAgent w (s_agent_id st) of
        None \<Rightarrow> (Throw TypeError, w)
      | Some a \<Rightarrow>
          (let w1 = update_subtasks (\<lambda>r. s_id r = s_id st) (\<lambda>r. r\<lparr>s_status := S_in_progress\<rparr>) w;
               w2 = update_agents (\<lambda>r. a_id r = a_id a)
                      (\<lambda>r. r\<lparr>a_status := WORKING, a_doing := Some (take 50 (s_description st))\<rparr>) w1;
               w3 = emit (agent_status (a_type a) WORKING (Some (take 50 (s_description st)))) w2
           in case buildPrompt st (buildContext w3 (s_task_id st) (s_sequence st)) of
                Throw e \<Rightarrow> (Throw e, w3)
              | Return prompt \<Rightarrow>
                  (Return (a, prompt),
                   emit (agent_speak (a_type a) (JStr (getStartingMessage (a_type a))) None) w3)))"

definition handleReply :: "ext \<Rightarrow> subtask \<Rightarrow> agent \<Rightarrow> string \<Rightarrow> world \<Rightarrow> unit outcome \<times> world" where
  "handleReply x st a response w =
     (let parsed = parseAgentResponse x response
      in if parsed = JNull then (Throw TypeError, w)
         else
           (let w1 = (case field parsed ''thinking'' of
                        Some v \<Rightarrow> if truthy v then emit (agent_think (a_type a) v) w else w
                      | None \<Rightarrow> w);
                w2 = (case field parsed ''saying'' of
                        Some v \<Rightarrow>
                          if truthy v
                          then emit (agent_speak (a_type a) v (field parsed ''toAgent'')) w1
                          else w1
                      | None \<Rightarrow> w1);
                out = (case field parsed ''output'' of
                         Some v \<Rightarrow> if truthy v then param_text x v else response
                       | None \<Rightarrow> response);
                w3 = update_subtasks (\<lambda>r. s_id r = s_id st)
                       (\<lambda>r. r\<lparr>s_status := S_completed, s_output := Some out\<rparr>) w2
            in case (case field parsed ''files'' of
                       Some fs \<Rightarrow>
                         if truthy fs \<and> length_positive fs
                         then saveTaskFiles x (s_task_id st) fs (a_id a) else None
                     | None \<Rightarrow> None) of
                 Some e \<Rightarrow> (Throw e, w3)
               | None \<Rightarrow>
                   and_then
                     (case field parsed ''needsHelp'' of
                        Some v \<Rightarrow>
                          if truthy v
                          then requestAgentHelp x a v (field parsed ''helpTopic'') (s_task_id st)
                          else (\<lambda>w'. (Return (), w'))
                      | None \<Rightarrow> (\<lambda>w'. (Return (), w')))
                     (checkTaskCompletion (s_task_id st)) w3))"

definition executeSubtask_resume ::
    "ext \<Rightarrow> subtask \<Rightarrow> agent \<Rightarrow> string outcome \<Rightarrow> world \<Rightarrow> unit outcome \<times> world" where
  "executeSubtask_resume x st a reply w =
     (let (r, w1) = (case reply of
                       Throw e \<Rightarrow> (Throw e, w)
                     | Return response \<Rightarrow> handleReply x st a response w);
          w2 = (case r of
                  Throw e \<Rightarrow>
                    emit (agent_speak (a_type a) (JStr ''Something went wrong...'') None)
                      (update_subtasks (\<lambda>r. s_id r = s_id st) (\<lambda>r. r\<lparr>s_status := S_failed\<rparr>) w1)
                | Return _ \<Rightarrow> w1);
          w3 = update_agents (\<lambda>r. a_id r = a_id a) (\<lambda>r. r\<lparr>a_status := IDLE, a_doing := None\<rparr>) w2
      in (Return (), emit (agent_status (a_type a) IDLE None) w3))"

definition executeSubtask :: "ext \<Rightarrow> subtask \<Rightarrow> world \<Rightarrow> unit outcome \<times> world" where
  "executeSubtask x st w =
     (case executeSubtask_begin st w of
        (Throw e, w1) \<Rightarrow> (Throw e, w1)
      | (Return (a, prompt), w1) \<Rightarrow>
          executeSubtask_resume x st a (callAgent x (calls w1) (a_type a) prompt)
            (w1\<lparr>calls := calls w1 + 1\<rparr>))"

text \<open>
  The rows \<open>processSubtasks\<close> selects. \<open>a.current_hub = s.hub_id\<close> is an SQL comparison,
  false when either side is NULL. \<open>ORDER BY s.sequence\<close> leaves the order of equal keys
  open; the model keeps them in table order.
\<close>

definition readySubtasks :: "world \<Rightarrow> subtask list" where
  "readySubtasks w =
     sort_key s_sequence
       (concat (map (\<lambda>s. concat (map (\<lambda>a.
          if s_agent_id s = a_id a \<and> s_status s = S_assigned \<and> a_status a = IDLE
             \<and> a_current_hub a \<noteq> None \<and> a_current_hub a = s_hub_id s
          then [s] else []) (agents w))) (subtasks w)))"

definition processSubtasks :: "ext \<Rightarrow> world \<Rightarrow> unit outcome \<times> world" where
  "processSubtasks x w = for_each (readySubtasks w) (executeSubtask x) w"

subsection \<open>Message delivery\<close>

text \<open>The rows \<open>processMessages\<close> selects: the message with the two joined roles.\<close>

definition readyMessages :: "world \<Rightarrow> (message \<times> string \<times> string) list" where
  "readyMessages w =
     concat (map (\<lambda>m. concat (map (\<lambda>fa. concat (map (\<lambda>ta.
       if m_from_agent_id m = a_id fa \<and> m_to_agent_id m = a_id ta \<and> \<not> m_read_at m
          \<and> a_current_hub fa = Some town_square \<and> a_current_hub ta = Some town_square
       then [(m, a_type fa, a_type ta)] else []) (agents w))) (agents w))) (messages w))"

definition message_prompt :: "string \<Rightarrow> string \<Rightarrow> string" where
  "message_prompt from_type content =
     [CHR 0x0A] @ replicate 8 CHR '' '' @ from_type @ '' said: '' @ [CHR 0x22] @ content
     @ [CHR 0x22, CHR 0x0A] @ replicate 8 CHR '' '' @ ''Respond briefly and helpfully.''
     @ [CHR 0x0A] @ replicate 6 CHR '' ''"

definition deliverMessage :: "ext \<Rightarrow> message \<times> string \<times> string \<Rightarrow> world \<Rightarrow> unit outcome \<times> world" where
  "deliverMessage x row w =
     (case row of (msg, from_type, to_type) \<Rightarrow>
        (let w1 = update_messages (\<lambda>r. m_id r = m_id msg) (\<lambda>r. r\<lparr>m_read_at := True\<rparr>) w;
             w2 = w1\<lparr>calls := calls w1 + 1\<rparr>
         in case callAgent x (calls w1) to_type (message_prompt from_type (m_content msg)) of
              Throw e \<Rightarrow> (Throw e, w2)
            | Return response \<Rightarrow>
                (let parsed = parseAgentResponse x response
                 in if parsed = JNull then (Throw TypeError, w2)
                    else
                      (Return (),
                       emit (agent_speak to_type
                               (case field parsed ''saying'' of
                                  Some v \<Rightarrow> if truthy v then v else JStr (take 100 response)
                                | None \<Rightarrow> JStr (take 100 response))
                               (Some (JStr from_type))) w2))))"

definition processMessages :: "ext \<Rightarrow> world \<Rightarrow> unit outcome \<times> world" where
  "processMessages x w = for_each (readyMessages w) (deliverMessage x) w"

subsection \<open>The tick\<close>

text \<open>
  One \<open>try\<close> encloses the four phases; the \<open>catch\<close> only logs. \<open>setTimeout\<close> follows the
  \<open>try\<close> statement.
\<close>

definition tick_phases :: "ext \<Rightarrow> world \<Rightarrow> unit outcome \<times> world" where
  "tick_phases x =
     and_then processPendingTasks
       (and_then updateAgentPositions
          (and_then (processSubtasks x) (processMessages x)))"

definition tick :: "ext \<Rightarrow> world \<Rightarrow> world" where
  "tick x w =
     (if \<not> running w then w
      else (let w1 = snd (tick_phases x w)
            in w1\<lparr>timers := timers w1 @ [NextTick TICK_INTERVAL]\<rparr>))"

subsection \<open>Submission surface (API routes)\<close>

text \<open>\<open>POST /tasks\<close>: the row takes the column defaults; an empty prompt is refused.\<close>

definition createTask :: "ext \<Rightarrow> string option \<Rightarrow> string option \<Rightarrow> world \<Rightarrow> world" where
  "createTask x prompt userId w =
     (case prompt of
        None \<Rightarrow> w
      | Some p \<Rightarrow>
          if p = [] then w
          else
            (let t = \<lparr>t_id = uuid_generate_v4 x (uuids w), t_prompt = p,
                      t_user_id = (case userId of None \<Rightarrow> ''anonymous''
                                   | Some u \<Rightarrow> if u = [] then ''anonymous'' else u),
                      t_status = T_pending, t_download_url = None, t_preview_url = None\<rparr>
             in emit (task_created (t_id t) p)
                  (w\<lparr>tasks := tasks w @ [t], uuids := uuids w + 1\<rparr>)))"

text \<open>\<open>POST /tasks/:id/cancel\<close>.\<close>

definition cancelTask :: "uuid \<Rightarrow> world \<Rightarrow> world" where
  "cancelTask taskId w =
     emit (task_cancelled taskId)
       (update_tasks (\<lambda>t. t_id t = taskId \<and> t_status t \<notin> {T_completed, T_cancelled})
          (\<lambda>t. t\<lparr>t_status := T_cancelled\<rparr>) w)"

subsection \<open>Predicates and projections used in the statements\<close>

text \<open>
  The points \<open>currentPos\<close> and \<open>targetPos\<close> of \<open>moveAgentToHub\<close>.
\<close>

definition agent_xy :: "agent \<Rightarrow> point" where
  "agent_xy a = \<lparr>p_x = a_position_x a, p_y = a_position_y a, p_z = None\<rparr>"

definition hub_xy :: "hub \<Rightarrow> point" where
  "hub_xy h = \<lparr>p_x = h_position_x h, p_y = h_position_y h, p_z = None\<rparr>"

text \<open>
  Columns of the tables, row by row.
\<close>

definition statuses :: "world \<Rightarrow> (uuid \<times> int \<times> SubtaskStatus) list" where
  "statuses w = map (\<lambda>s. (s_id s, s_sequence s, s_status s)) (subtasks w)"

definition task_statuses :: "world \<Rightarrow> (uuid \<times> TaskStatus) list" where
  "task_statuses w = map (\<lambda>t. (t_id t, t_status t)) (tasks w)"

definition agent_statuses :: "world \<Rightarrow> (uuid \<times> AgentStatus \<times> string option) list" where
  "agent_statuses w = map (\<lambda>a. (a_id a, a_status a, a_current_hub a)) (agents w)"

definition read_flags :: "world \<Rightarrow> (uuid \<times> string option \<times> bool) list" where
  "read_flags w = map (\<lambda>m. (m_id m, m_hub_id m, m_read_at m)) (messages w)"

definition outputs :: "world \<Rightarrow> (uuid \<times> string option) list" where
  "outputs w = map (\<lambda>s. (s_id s, s_output s)) (subtasks w)"

definition positions :: "world \<Rightarrow> (uuid \<times> number \<times> number) list" where
  "positions w = map (\<lambda>a. (a_id a, a_position_x a, a_position_y a)) (agents w)"

text \<open>
  The count of \<open>checkTaskCompletion\<close> is zero: every subtask of the task is completed.
\<close>

definition all_completed :: "world \<Rightarrow> uuid \<Rightarrow> bool" where
  "all_completed w taskId =
     (\<forall>s \<in> set (subtasks w). s_task_id s = taskId \<longrightarrow> s_status s = S_completed)"

text \<open>
  The task has at least one subtask.
\<close>

definition owns_subtask :: "world \<Rightarrow> uuid \<Rightarrow> bool" where
  "owns_subtask w taskId = (\<exists>s \<in> set (subtasks w). s_task_id s = taskId)"

text \<open>
  A completed task has completed subtasks only, and a task that owns subtasks, all of
  them completed, is completed.
\<close>

definition completion_inv :: "world \<Rightarrow> bool" where
  "completion_inv w =
     (\<forall>t \<in> set (tasks w).
        (t_status t = T_completed \<longrightarrow> all_completed w (t_id t))
        \<and> (owns_subtask w (t_id t) \<and> all_completed w (t_id t) \<longrightarrow> t_status t = T_completed))"

text \<open>
  The row handed to \<open>executeSubtask\<close> names rows of the table that belong to its task
  and are not completed.
\<close>

definition row_pending :: "subtask \<Rightarrow> world \<Rightarrow> bool" where
  "row_pending st w =
     (\<forall>r \<in> set (subtasks w). s_id r = s_id st \<longrightarrow>
        s_task_id r = s_task_id st \<and> s_status r \<noteq> S_completed)"

text \<open>
  The table of subtasks differs only in the rows with one identifier, which keep their
  identifier and their task.
\<close>

definition rewrites_rows :: "uuid \<Rightarrow> (subtask \<Rightarrow> subtask) \<Rightarrow> world \<Rightarrow> world \<Rightarrow> bool" where
  "rewrites_rows sid f w w' =
     (subtasks w' = map (\<lambda>r. if s_id r = sid then f r else r) (subtasks w)
      \<and> (\<forall>r. s_id (f r) = s_id r \<and> s_task_id (f r) = s_task_id r))"

text \<open>
  The \<open>UPDATE\<close> of \<open>checkTaskCompletion\<close> on one row.
\<close>

definition completes :: "uuid \<Rightarrow> task \<Rightarrow> task" where
  "completes taskId t =
     (if t_id t = taskId
      then t\<lparr>t_status := T_completed, t_download_url := Some (fst (packageResult taskId)),
             t_preview_url := Some (snd (packageResult taskId))\<rparr>
      else t)"

text \<open>
  The \<open>UPDATE\<close> of \<open>processMessages\<close> on one row, for a set of message identifiers.
\<close>

definition mark_read :: "uuid set \<Rightarrow> message \<Rightarrow> message" where
  "mark_read S r = (if m_id r \<in> S then r\<lparr>m_read_at := True\<rparr> else r)"
text \<open>
  The town square is in the hub registry.
\<close>

definition hub_present :: "world \<Rightarrow> bool" where
  "hub_present w = (getHub w town_square \<noteq> None)"

text \<open>
  The \<open>UPDATE\<close> of \<open>executeSubtask\<close> that stores the output, on one row.
\<close>

definition stores :: "string \<Rightarrow> subtask \<Rightarrow> subtask" where
  "stores out r = r\<lparr>s_status := S_completed, s_output := Some out\<rparr>"
text \<open>
  The primary keys of subtasks and agents are unique and the town square is in the hub
  registry.
\<close>

definition well_formed :: "world \<Rightarrow> bool" where
  "well_formed w =
     (distinct (map s_id (subtasks w)) \<and> distinct (map a_id (agents w)) \<and> hub_present w)"
text \<open>
  Between two stores: the messages of the first are still there, in place, those that
  were read are still read, and keys that were unique are still unique.
\<close>

definition messages_kept :: "world \<Rightarrow> world \<Rightarrow> bool" where
  "messages_kept w w' =
     (length (messages w) \<le> length (messages w')
      \<and> (\<forall>i < length (messages w).
            m_id (messages w' ! i) = m_id (messages w ! i)
            \<and> (m_read_at (messages w ! i) \<longrightarrow> m_read_at (messages w' ! i)))
      \<and> (distinct (map m_id (messages w)) \<longrightarrow> distinct (map m_id (messages w'))))"

text \<open>The primary keys of agents and of messages are unique.\<close>

definition keys_unique :: "world \<Rightarrow> bool" where
  "keys_unique w = (distinct (map a_id (agents w)) \<and> distinct (map m_id (messages w)))"

text \<open>
  A run of ticks, one after the other; the collaborators may answer differently from
  tick to tick.
\<close>

definition ticks :: "ext list \<Rightarrow> world \<Rightarrow> world" where
  "ticks xs w = fold tick xs w"

text \<open>
  The words of the specification, over the reals: the distance of two points, and the point
  at distance \<open>min (s * dt) distance\<close> from \<open>p\<close> on the straight line to \<open>q\<close>.
\<close>

definition spec_distance :: "real \<times> real \<Rightarrow> real \<times> real \<Rightarrow> real" where
  "spec_distance p q = sqrt ((fst q - fst p)\<^sup>2 + (snd q - snd p)\<^sup>2)"

definition spec_step :: "real \<times> real \<Rightarrow> real \<times> real \<Rightarrow> real \<Rightarrow> real \<Rightarrow> real \<times> real" where
  "spec_step p q s dt =
     (let d = spec_distance p q; r = min (s * dt) d
      in (fst p + r * ((fst q - fst p) / d), snd p + r * ((snd q - snd p) / d)))"

text \<open>A real that is a finite double: rounding leaves it as it is.\<close>

definition is_double :: "real \<Rightarrow> bool" where
  "is_double v = (to_number v = Num v)"

text \<open>
  No operation of the step from \<open>p\<close> towards \<open>q\<close> rounds: the exact result of every
  operation of \<open>distance\<close>, of the quotient and of \<open>lerp\<close> is a finite double.
\<close>

definition exact_step :: "real \<times> real \<Rightarrow> real \<times> real \<Rightarrow> real \<Rightarrow> real \<Rightarrow> bool" where
  "exact_step p q s dt =
     (let dx = fst q - fst p; dy = snd q - snd p; d = sqrt (dx * dx + dy * dy);
          t = min (s * dt / d) 1
      in is_double dx \<and> is_double dy \<and> is_double (dx * dx) \<and> is_double (dy * dy)
         \<and> is_double (dx * dx + dy * dy) \<and> is_double d \<and> is_double (s * dt)
         \<and> is_double (s * dt / d) \<and> is_double (dx * t) \<and> is_double (dy * t)
         \<and> is_double (fst p + dx * t) \<and> is_double (snd p + dy * t))"

text \<open>The \<open>UPDATE\<close> of \<open>updateAgentPositions\<close> on arrival, on one row.\<close>

definition arrives :: "hub \<Rightarrow> agent \<Rightarrow> agent" where
  "arrives h r =
     r\<lparr>a_current_hub := a_target_hub r, a_target_hub := None, a_status := IDLE,
       a_position_x := h_position_x h, a_position_y := h_position_y h\<rparr>"

text \<open>What one pass of \<open>updateAgentPositions\<close> over the store \<open>w\<close> makes of the row \<open>r\<close>.\<close>

definition step_row :: "world \<Rightarrow> agent \<Rightarrow> agent" where
  "step_row w r =
     (case a_target_hub r of
        None \<Rightarrow> r
      | Some t \<Rightarrow>
          if a_status r \<noteq> TRAVELING then r
          else
            (case getHub w t of
               None \<Rightarrow> r
             | Some h \<Rightarrow>
                 (case moveAgentToHub r h AGENT_SPEED
                         (num_div (Num (real TICK_INTERVAL)) (Num 1000)) of
                    (True, _) \<Rightarrow> arrives h r
                  | (False, r') \<Rightarrow>
                      r\<lparr>a_position_x := a_position_x r', a_position_y := a_position_y r'\<rparr>)))"

text \<open>The foreign key of \<open>target_hub\<close>: every target is in the hub registry.\<close>

definition targets_present :: "world \<Rightarrow> bool" where
  "targets_present w =
     (\<forall>a \<in> set (agents w). \<forall>t. a_target_hub a = Some t \<longrightarrow> getHub w t \<noteq> None)"

text \<open>A number that is not \<open>NaN\<close> and at least \<open>c\<close>; a number of magnitude at least 1.\<close>

definition at_least :: "real \<Rightarrow> number \<Rightarrow> bool" where
  "at_least c n = (case n of Num v \<Rightarrow> c \<le> v | PosInfinity \<Rightarrow> True | _ \<Rightarrow> False)"

definition apart :: "number \<Rightarrow> bool" where
  "apart n = (case n of Num v \<Rightarrow> 1 \<le> \<bar>v\<bar> | NaN \<Rightarrow> False | _ \<Rightarrow> True)"

subsection \<open>Example stores\<close>

text \<open>
  The hubs and agents that schema.sql seeds.
\<close>

definition seed_hubs :: "hub list" where
  "seed_hubs =
     [\<lparr>h_id = ''town_square'', h_position_x = Num 0, h_position_y = Num 0\<rparr>,
      \<lparr>h_id = ''planning_room'', h_position_x = Num (- 5), h_position_y = Num 3\<rparr>,
      \<lparr>h_id = ''design_studio'', h_position_x = Num 5, h_position_y = Num 3\<rparr>,
      \<lparr>h_id = ''coding_desk'', h_position_x = Num (- 5), h_position_y = Num (- 3)\<rparr>,
      \<lparr>h_id = ''review_station'', h_position_x = Num 5, h_position_y = Num (- 3)\<rparr>,
      \<lparr>h_id = ''deploy_station'', h_position_x = Num 0, h_position_y = Num (- 5)\<rparr>,
      \<lparr>h_id = ''tavern'', h_position_x = Num (- 7), h_position_y = Num 0\<rparr>,
      \<lparr>h_id = ''library'', h_position_x = Num 7, h_position_y = Num 0\<rparr>]"

definition seed_agent :: "uuid \<Rightarrow> string \<Rightarrow> agent" where
  "seed_agent aid ty =
     \<lparr>a_id = aid, a_type = ty, a_current_hub = Some ''town_square'', a_target_hub = None,
      a_status = IDLE, a_doing = None, a_position_x = Num 0, a_position_y = Num 0,
      a_position_z = Some (Num 0)\<rparr>"

definition seed_agents :: "agent list" where
  "seed_agents =
     [seed_agent ''A1'' ''planner'', seed_agent ''A2'' ''designer'',
      seed_agent ''A3'' ''coder'', seed_agent ''A4'' ''reviewer'']"

definition seed_world :: world where
  "seed_world =
     \<lparr>hubs = seed_hubs, agents = seed_agents, tasks = [], subtasks = [], messages = [],
      emitted = [], timers = [], running = True, agentStates = [], activeTasks = [],
      calls = 0, uuids = 0\<rparr>"

text \<open>
  The state object of an idle agent.
\<close>

definition idle_state :: AgentState where
  "idle_state =
     \<lparr>agentId = ''A3'', agentType = ''coder'', status = IDLE,
      currentHub = Some ''town_square'', targetHub = None, currentTask = None,
      currentSubtask = None,
      position = \<lparr>p_x = Num 0, p_y = Num 0, p_z = Some (Num 0)\<rparr>, doing = None,
      chattingWith = None, notified = []\<rparr>"

text \<open>
  A hub at distance 5 from the origin.
\<close>

definition far_hub :: hub where
  "far_hub = \<lparr>h_id = ''far'', h_position_x = Num 3, h_position_y = Num 4\<rparr>"

definition at_hub :: "uuid \<Rightarrow> string \<Rightarrow> string \<Rightarrow> number \<Rightarrow> number \<Rightarrow> agent" where
  "at_hub aid ty hid px py =
     \<lparr>a_id = aid, a_type = ty, a_current_hub = Some hid, a_target_hub = None,
      a_status = IDLE, a_doing = None, a_position_x = px, a_position_y = py,
      a_position_z = Some (Num 0)\<rparr>"

text \<open>
  Collaborators for the examples: the service answers the n-th call with \<open>replies n\<close>,
  \<open>JSON.parse\<close> is given on the two texts the examples send it (the text \<open>null\<close> parses
  to \<open>null\<close>, a text that is not JSON is rejected), files are saved without error.
\<close>

definition reply_ext :: "(nat \<Rightarrow> string outcome) \<Rightarrow> ext" where
  "reply_ext replies =
     \<lparr>anthropic = (\<lambda>n ty prompt. replies n),
      JSON_parse = (\<lambda>s. if s = ''null'' then Some JNull else None),
      pg_text = (\<lambda>v. ''''),
      saveTaskFiles = (\<lambda>taskId fs aid. None),
      uuid_generate_v4 = (\<lambda>n. ''M'' @ replicate n (CHR ''i''))\<rparr>"

definition plain_ext :: ext where
  "plain_ext = reply_ext (\<lambda>n. Return ''I did it, no JSON here'')"

definition failing_ext :: ext where
  "failing_ext =
     reply_ext (\<lambda>n. if n = 0 then Throw (ApiError ''overloaded'') else Return ''looks fine'')"

definition null_ext :: ext where
  "null_ext = reply_ext (\<lambda>n. Return ''null'')"

text \<open>
  Scenario A: the task "build a page" with the subtasks designer, coder, reviewer at
  sequences 0, 1, 2. The designer is still on the way to the studio; the coder and the
  reviewer wait at their desks.
\<close>

definition page_task :: task where
  "page_task = \<lparr>t_id = ''T1'', t_prompt = ''build a page'', t_user_id = ''anonymous'',
     t_status = T_in_progress, t_download_url = None, t_preview_url = None\<rparr>"

definition page_subtask :: "uuid \<Rightarrow> uuid \<Rightarrow> string \<Rightarrow> string \<Rightarrow> int \<Rightarrow> subtask" where
  "page_subtask sid aid ty hid n =
     \<lparr>s_id = sid, s_task_id = ''T1'', s_agent_id = aid, s_agent_type = ty,
      s_description = ''do '' @ ty @ '' work'', s_output = None, s_status = S_assigned,
      s_sequence = n, s_hub_id = Some hid\<rparr>"

definition design_subtask :: subtask where
  "design_subtask = page_subtask ''S0'' ''A2'' ''designer'' ''design_studio'' 0"

definition code_subtask :: subtask where
  "code_subtask = page_subtask ''S1'' ''A3'' ''coder'' ''coding_desk'' 1"

definition review_subtask :: subtask where
  "review_subtask = page_subtask ''S2'' ''A4'' ''reviewer'' ''review_station'' 2"

definition designer_row :: agent where
  "designer_row = (seed_agent ''A2'' ''designer'')
                    \<lparr>a_target_hub := Some ''design_studio'', a_status := TRAVELING\<rparr>"

definition coder_row :: agent where
  "coder_row = at_hub ''A3'' ''coder'' ''coding_desk'' (Num (- 5)) (Num (- 3))"

definition page_world :: world where
  "page_world =
     seed_world\<lparr>
       agents := [seed_agent ''A1'' ''planner'',
                  (seed_agent ''A2'' ''designer'')
                    \<lparr>a_target_hub := Some ''design_studio'', a_status := TRAVELING\<rparr>,
                  at_hub ''A3'' ''coder'' ''coding_desk'' (Num (- 5)) (Num (- 3)),
                  at_hub ''A4'' ''reviewer'' ''review_station'' (Num 5) (Num (- 3))],
       tasks := [page_task],
       subtasks := [page_subtask ''S0'' ''A2'' ''designer'' ''design_studio'' 0,
                    page_subtask ''S1'' ''A3'' ''coder'' ''coding_desk'' 1,
                    page_subtask ''S2'' ''A4'' ''reviewer'' ''review_station'' 2]\<rparr>"

text \<open>
  Scenario D: the designer's subtask is completed and the coder's is the last one.
\<close>

definition flight_world :: world where
  "flight_world =
     page_world\<lparr>subtasks :=
       [design_subtask\<lparr>s_status := S_completed, s_output := Some ''a layout''\<rparr>,
        code_subtask]\<rparr>"

definition flight_prompt :: string where
  "flight_prompt =
     ''Task: do coder work'' @ [CHR 0x0A, CHR 0x0A] @ ''Previous work:'' @ [CHR 0x0A]
     @ ''- designer: a layout'' @ [CHR 0x0A, CHR 0x0A] @ ''Complete your part of this task.''"

text \<open>
  A help request of the coder, who has since been sent to the coding desk: the row still
  names the town square as the current hub while the status is traveling.
\<close>

definition chat_message :: message where
  "chat_message =
     \<lparr>m_id = ''M0'', m_task_id = ''T1'', m_from_agent_id = ''A3'', m_to_agent_id = ''A2'',
      m_from_agent_type = ''coder'', m_to_agent_type = ''designer'',
      m_content = ''which colour?'', m_hub_id = Some ''town_square'', m_read_at = False\<rparr>"

definition chat_world :: world where
  "chat_world =
     seed_world\<lparr>
       agents := [seed_agent ''A2'' ''designer'',
                  (seed_agent ''A3'' ''coder'')
                    \<lparr>a_target_hub := Some ''coding_desk'', a_status := TRAVELING\<rparr>],
       messages := [chat_message]\<rparr>"

text \<open>
  A town without a planner and a pending task; an agent on the way to a hub that is not
  in the registry; a completed subtask without output.
\<close>

definition traveller :: agent where
  "traveller = (seed_agent ''A2'' ''designer'')
                 \<lparr>a_target_hub := Some ''library'', a_status := TRAVELING\<rparr>"

definition library_hub :: hub where
  "library_hub = \<lparr>h_id = ''library'', h_position_x = Num 7, h_position_y = Num 0\<rparr>"

definition square_hub :: hub where
  "square_hub = \<lparr>h_id = ''town_square'', h_position_x = Num 0, h_position_y = Num 0\<rparr>"

definition stuck_world :: world where
  "stuck_world =
     seed_world\<lparr>
       agents := [traveller],
       tasks := [page_task\<lparr>t_status := T_pending\<rparr>]\<rparr>"

definition lost_world :: world where
  "lost_world =
     seed_world\<lparr>
       agents := [(seed_agent ''A2'' ''designer'')
                    \<lparr>a_target_hub := Some ''nowhere'', a_status := TRAVELING\<rparr>]\<rparr>"

definition gap_world :: world where
  "gap_world =
     seed_world\<lparr>
       agents := [coder_row],
       tasks := [page_task],
       subtasks := [design_subtask\<lparr>s_status := S_completed\<rparr>, code_subtask]\<rparr>"

text \<open>
  The task was cancelled while its last subtask was in flight, and that subtask has since
  completed.
\<close>

definition done_world :: world where
  "done_world =
     flight_world\<lparr>
       tasks := [page_task\<lparr>t_status := T_cancelled\<rparr>],
       subtasks := [design_subtask\<lparr>s_status := S_completed, s_output := Some ''a layout''\<rparr>,
                    code_subtask\<lparr>s_status := S_completed, s_output := Some ''done''\<rparr>]\<rparr>"

text \<open>
  Scenario D with the coder alone in town.
\<close>

definition desk_world :: world where
  "desk_world = flight_world\<lparr>agents := [coder_row]\<rparr>"

text \<open>
  A hub one sixteenth away from the origin; a store where the coder travels from the
  origin to the hub at distance 5; the designer one unit before the library.
\<close>

definition near_hub :: hub where
  "near_hub = \<lparr>h_id = ''near'', h_position_x = Num (1 / 16), h_position_y = Num 0\<rparr>"

definition trek_world :: world where
  "trek_world =
     seed_world\<lparr>hubs := [far_hub],
       agents := [(seed_agent ''A3'' ''coder'')
                    \<lparr>a_target_hub := Some ''far'', a_status := TRAVELING\<rparr>]\<rparr>"

definition last_leg :: agent where
  "last_leg = (at_hub ''A2'' ''designer'' ''town_square'' (Num 6) (Num 0))
                \<lparr>a_target_hub := Some ''library'', a_status := TRAVELING\<rparr>"

section \<open>Properties\<close>

subsection \<open>Evaluation of the examples\<close>

lemmas ex_defs = seed_hubs_def seed_agent_def seed_agents_def seed_world_def at_hub_def
  reply_ext_def plain_ext_def failing_ext_def null_ext_def page_task_def page_subtask_def
  design_subtask_def code_subtask_def review_subtask_def designer_row_def coder_row_def
  page_world_def flight_world_def flight_prompt_def chat_message_def chat_world_def
  stuck_world_def lost_world_def gap_world_def statuses_def task_statuses_def
  agent_statuses_def read_flags_def positions_def done_world_def outputs_def
  traveller_def library_hub_def square_hub_def desk_world_def near_hub_def
  trek_world_def last_leg_def

lemmas run_defs = processSubtasks_def readySubtasks_def executeSubtask_def executeSubtask_begin_def
  executeSubtask_resume_def handleReply_def getAgent_def getAgentByType_def getHub_def
  update_subtasks_def update_agents_def update_tasks_def update_messages_def emit_def
  buildPrompt_def buildContext_def callAgent_def agentConfigs_def parseAgentResponse_def
  checkTaskCompletion_def celebrateCompletion_def assignAgentToHub_def packageResult_def
  and_then_def Let_def town_square_def planning_room_def cancelTask_def param_text_def

lemmas msg_defs = processMessages_def readyMessages_def deliverMessage_def message_prompt_def

lemmas tick_defs = tick_def tick_phases_def processPendingTasks_def processPendingTask_def
  updateAgentPositions_def updateAgentPosition_def moveAgentToHub_def distance_def
  lerpPoint_def lerp_def arrivalThreshold_def AGENT_SPEED_def TICK_INTERVAL_def
  getAgentPosition_def msg_defs run_defs

subsection \<open>Iteration and frame conditions\<close>

lemma for_each_rel:
  assumes refl: "\<And>w. R w w"
    and trans: "\<And>a b c. R a b \<Longrightarrow> R b c \<Longrightarrow> R a c"
    and step: "\<And>y w. R w (snd (f y w))"
  shows "R w (snd (for_each xs f w))"
proof (induction xs arbitrary: w)
  case Nil
  show ?case by (simp add: refl)
next
  case (Cons y ys)
  obtain r w1 where fy: "f y w = (r, w1)" by (cases "f y w")
  have s1: "R w w1" using step [of w y] fy by simp
  show ?case
  proof (cases r)
    case (Return u)
    have "R w1 (snd (for_each ys f w1))" by (rule Cons.IH)
    with s1 have "R w (snd (for_each ys f w1))" by (rule trans)
    then show ?thesis using fy Return by simp
  next
    case (Throw e)
    then show ?thesis using fy s1 by simp
  qed
qed

lemma for_each_inv:
  assumes step: "\<And>y w. I w \<Longrightarrow> y \<in> set ys \<Longrightarrow> I (snd (f y w))" and init: "I w"
  shows "I (snd (for_each ys f w))"
  using assms
proof (induction ys arbitrary: w)
  case Nil
  then show ?case by simp
next
  case (Cons y ys)
  obtain r w1 where fy: "f y w = (r, w1)" by (cases "f y w")
  have i1: "I w1" using Cons.prems(1) [of w y] Cons.prems(2) fy by simp
  show ?case
  proof (cases r)
    case (Throw e)
    then show ?thesis using fy i1 by simp
  next
    case (Return u)
    have "I (snd (for_each ys f w1))" using Cons.IH [of w1] Cons.prems(1) i1 by simp
    then show ?thesis using fy Return by simp
  qed
qed

lemma for_each_keeps:
  assumes "\<And>y w. g (snd (f y w)) = g w"
  shows "g (snd (for_each xs f w)) = g w"
  using for_each_rel [where R = "\<lambda>a b. g b = g a" and f = f] assms by simp

lemma and_then_keeps:
  assumes "\<And>w. g (snd (m w)) = g w" and "\<And>w. g (snd (k w)) = g w"
  shows "g (snd (and_then m k w)) = g w"
proof -
  obtain r w1 where mw: "m w = (r, w1)" by (cases "m w")
  have "g w1 = g w" using assms(1) [of w] mw by simp
  then show ?thesis using mw assms(2) [of w1] by (cases r) (simp_all add: and_then_def)
qed

lemma assignAgentToHub_tasks [simp]: "tasks (snd (assignAgentToHub aid hid w)) = tasks w"
  by (simp add: assignAgentToHub_def update_agents_def emit_def Let_def split: option.splits)

lemma assignAgentToHub_subtasks [simp]: "subtasks (snd (assignAgentToHub aid hid w)) = subtasks w"
  by (simp add: assignAgentToHub_def update_agents_def emit_def Let_def split: option.splits)

lemma assignAgentToHub_messages [simp]: "messages (snd (assignAgentToHub aid hid w)) = messages w"
  by (simp add: assignAgentToHub_def update_agents_def emit_def Let_def split: option.splits)

lemma assignAgentToHub_hubs [simp]: "hubs (snd (assignAgentToHub aid hid w)) = hubs w"
  by (simp add: assignAgentToHub_def update_agents_def emit_def Let_def split: option.splits)

lemma celebrateCompletion_keeps:
  assumes "\<And>aid hid w. g (snd (assignAgentToHub aid hid w)) = g w"
    and "\<And>w ts. g (w\<lparr>timers := ts\<rparr>) = g w"
  shows "g (snd (celebrateCompletion w)) = g w"
proof -
  obtain r w1 where fe: "for_each (agents w) (\<lambda>a. assignAgentToHub (a_id a) town_square) w = (r, w1)"
    by (cases "for_each (agents w) (\<lambda>a. assignAgentToHub (a_id a) town_square) w")
  have "g (snd (for_each (agents w) (\<lambda>a. assignAgentToHub (a_id a) town_square) w)) = g w"
    by (rule for_each_keeps) (rule assms(1))
  then have "g w1 = g w" using fe by simp
  then show ?thesis using fe assms(2) by (cases r) (simp_all add: celebrateCompletion_def)
qed

lemma celebrateCompletion_tasks [simp]: "tasks (snd (celebrateCompletion w)) = tasks w"
  by (rule celebrateCompletion_keeps) simp_all

lemma celebrateCompletion_subtasks [simp]: "subtasks (snd (celebrateCompletion w)) = subtasks w"
  by (rule celebrateCompletion_keeps) simp_all

lemma celebrateCompletion_messages [simp]: "messages (snd (celebrateCompletion w)) = messages w"
  by (rule celebrateCompletion_keeps) simp_all

lemma celebrateCompletion_hubs [simp]: "hubs (snd (celebrateCompletion w)) = hubs w"
  by (rule celebrateCompletion_keeps) simp_all

lemma count_zero_all_completed:
  "(length (filter (\<lambda>s. s_task_id s = taskId \<and> s_status s \<noteq> S_completed) (subtasks w)) = 0)
   = all_completed w taskId"
  by (auto simp: all_completed_def filter_empty_conv)

lemma checkTaskCompletion_subtasks [simp]:
  "subtasks (snd (checkTaskCompletion taskId w)) = subtasks w"
  by (simp add: checkTaskCompletion_def Let_def update_tasks_def emit_def split: prod.splits)

lemma checkTaskCompletion_tasks:
  "tasks (snd (checkTaskCompletion taskId w)) =
     (if all_completed w taskId
      then map (\<lambda>t. if t_id t = taskId
                     then t\<lparr>t_status := T_completed,
                            t_download_url := Some (fst (packageResult taskId)),
                            t_preview_url := Some (snd (packageResult taskId))\<rparr>
                     else t) (tasks w)
      else tasks w)"
  unfolding checkTaskCompletion_def count_zero_all_completed
  by (simp add: Let_def update_tasks_def emit_def split: prod.splits)

lemma checkTaskCompletion_sets_completed:
  assumes ac: "all_completed w taskId"
    and tin: "t \<in> set (tasks (snd (checkTaskCompletion taskId w)))"
    and tid: "t_id t = taskId"
  shows "t_status t = T_completed"
proof -
  let ?f = "\<lambda>r. if t_id r = taskId
                   then r\<lparr>t_status := T_completed,
                          t_download_url := Some (fst (packageResult taskId)),
                          t_preview_url := Some (snd (packageResult taskId))\<rparr>
                   else r"
  from tin ac have "t \<in> ?f ` set (tasks w)"
    by (simp add: checkTaskCompletion_tasks)
  then obtain r where r: "r \<in> set (tasks w)" "t = ?f r" by blast
  show ?thesis
  proof (cases "t_id r = taskId")
    case True
    then show ?thesis using r by simp
  next
    case False
    then show ?thesis using r tid by simp
  qed
qed

lemma executeSubtask_begin_tasks:
  "tasks (snd (executeSubtask_begin st w)) = tasks w"
  by (simp add: executeSubtask_begin_def update_subtasks_def update_agents_def emit_def Let_def
      split: option.splits outcome.splits)

lemma executeSubtask_begin_subtasks:
  "executeSubtask_begin st w = (Return (a, prompt), w1) \<Longrightarrow>
   subtasks w1 = map (\<lambda>r. if s_id r = s_id st then r\<lparr>s_status := S_in_progress\<rparr> else r) (subtasks w)"
  by (auto simp: executeSubtask_begin_def update_subtasks_def update_agents_def emit_def Let_def
      split: option.splits outcome.splits)

lemma set_readySubtasks:
  "set (readySubtasks w) =
       {s \<in> set (subtasks w). s_status s = S_assigned
          \<and> (\<exists>a \<in> set (agents w). a_id a = s_agent_id s \<and> a_status a = IDLE
                \<and> a_current_hub a \<noteq> None \<and> a_current_hub a = s_hub_id s)}"
  by (auto simp: readySubtasks_def split: if_splits)

subsection \<open>The agent state machine\<close>

lemma transitions_spec_table:
  "transitions a e = Some b \<longleftrightarrow> (a, e, b) \<in> set spec_table"
  by (cases a; cases e; cases b; simp add: spec_table_def)

lemma status_apply_event: "status (apply_event ev p s) = status s"
  by (cases ev) simp_all

text \<open>
  Claim C7. The transitions the state machine permits are exactly the rows of the table of
  section 4.2: \<open>transition\<close> succeeds if and only if the pair of the current status and
  the event is a row, and then the new status is the one the row names. For every other pair
  it returns \<open>false\<close> and leaves the whole object unchanged (status, hubs, task linkage,
  position, labels, and nothing is handed to the listeners). In particular
  \<open>complete_work\<close> while \<open>idle\<close> is rejected and the status stays \<open>idle\<close>.
\<close>

theorem transition_follows_table:
  "(fst (transition s ev p) \<longleftrightarrow> (\<exists>st'. (status s, ev, st') \<in> set spec_table))
   \<and> (\<forall>st'. (status s, ev, st') \<in> set spec_table \<longrightarrow> status (snd (transition s ev p)) = st')
   \<and> ((\<nexists>st'. (status s, ev, st') \<in> set spec_table) \<longrightarrow> transition s ev p = (False, s))
   \<and> transition (s\<lparr>status := IDLE\<rparr>) COMPLETE_WORK p = (False, s\<lparr>status := IDLE\<rparr>)"
proof -
  have tab: "\<And>b. (status s, ev, b) \<in> set spec_table \<longleftrightarrow> transitions (status s) ev = Some b"
    by (simp add: transitions_spec_table)
  show ?thesis
    unfolding tab
    by (cases "transitions (status s) ev")
       (simp_all add: transition_def canTransition_def Let_def status_apply_event)
qed

theorem transition_follows_table_witness:
  "(IDLE, ASSIGN_TASK, TRAVELING) \<in> set spec_table
   \<and> status (snd (transition idle_state ASSIGN_TASK no_payload)) = TRAVELING
   \<and> (\<nexists>st'. (IDLE, COMPLETE_WORK, st') \<in> set spec_table)
   \<and> transition idle_state COMPLETE_WORK no_payload = (False, idle_state)"
  using transition_follows_table [of idle_state ASSIGN_TASK no_payload]
        transition_follows_table [of idle_state COMPLETE_WORK no_payload]
  by (simp add: idle_state_def spec_table_def)

subsection \<open>Double arithmetic\<close>

lemma quantum_pos: "0 < quantum x"
  by (simp add: quantum_def)

lemma round_half_even_floor: "\<lfloor>y\<rfloor> \<le> round_half_even y"
  by (simp add: round_half_even_def Let_def)

lemma round_half_even_near: "\<bar>of_int (round_half_even y) - y\<bar> \<le> 1 / 2"
  unfolding round_half_even_def Let_def by (auto; linarith)

lemma round_half_even_int: "round_half_even (of_int n) = n"
  by (simp add: round_half_even_def Let_def)

lemma round_half_even_nonneg: "0 \<le> y \<Longrightarrow> 0 \<le> round_half_even y"
  using round_half_even_floor [of y] by (smt (verit) zero_le_floor)

lemma floor_log_eval:
  assumes "2 powi k \<le> \<bar>x\<bar>" and "\<bar>x\<bar> < 2 powi (k + 1)"
  shows "\<lfloor>log 2 \<bar>x\<bar>\<rfloor> = k"
proof -
  have pos: "0 < \<bar>x\<bar>" using assms(1) by (smt (verit) zero_less_power_int)
  have a: "2 powr real_of_int k = 2 powi k" by (simp add: powr_real_of_int')
  have b: "2 powr real_of_int (k + 1) = 2 powi (k + 1)" by (rule powr_real_of_int') simp_all
  show ?thesis
    using assms pos floor_log_eq_powr_iff [of "\<bar>x\<bar>" 2 k] by (simp only: a b)
qed

lemma round_double_eval:
  assumes "2 powi k \<le> \<bar>x\<bar>" and "\<bar>x\<bar> < 2 powi (k + 1)" and "- 1022 \<le> k"
  shows "round_double x
           = sgn x * (of_int (round_half_even (\<bar>x\<bar> / 2 powi (k - 52))) * 2 powi (k - 52))"
  using floor_log_eval [OF assms(1,2)] assms(3) by (simp add: round_double_def quantum_def max_def)

lemma round_double_0 [simp]: "round_double 0 = 0"
  by (simp add: round_double_def)

lemma round_double_minus: "round_double (- x) = - round_double x"
  by (simp add: round_double_def quantum_def sgn_minus)

lemma round_double_nonneg: "0 \<le> x \<Longrightarrow> 0 \<le> round_double x"
  using round_half_even_nonneg [of "\<bar>x\<bar> / quantum x"] quantum_pos [of x]
  by (simp add: round_double_def sgn_if)

lemma round_double_error: "\<bar>round_double x - x\<bar> \<le> quantum x / 2"
proof -
  let ?q = "quantum x"
  let ?n = "of_int (round_half_even (\<bar>x\<bar> / ?q)) :: real"
  have q: "0 < ?q" by (rule quantum_pos)
  have "\<bar>?n - \<bar>x\<bar> / ?q\<bar> \<le> 1 / 2" by (rule round_half_even_near)
  then have "\<bar>?n - \<bar>x\<bar> / ?q\<bar> * ?q \<le> 1 / 2 * ?q" using q by (intro mult_right_mono) simp_all
  moreover have "\<bar>?n - \<bar>x\<bar> / ?q\<bar> * ?q = \<bar>?n * ?q - \<bar>x\<bar>\<bar>"
  proof -
    have "\<bar>?n - \<bar>x\<bar> / ?q\<bar> * ?q = \<bar>(?n - \<bar>x\<bar> / ?q) * ?q\<bar>"
      using q by (simp add: abs_mult)
    moreover have "(?n - \<bar>x\<bar> / ?q) * ?q = ?n * ?q - \<bar>x\<bar>"
      using q by (simp add: field_simps)
    ultimately show ?thesis by simp
  qed
  ultimately have e: "\<bar>?n * ?q - \<bar>x\<bar>\<bar> \<le> ?q / 2" by simp
  show ?thesis
  proof (cases "0 \<le> x")
    case True
    then show ?thesis using e by (cases "x = 0") (simp_all add: round_double_def sgn_if)
  next
    case False
    then have "round_double x - x = - (?n * ?q - \<bar>x\<bar>)"
      by (simp add: round_double_def sgn_if)
    then have "\<bar>round_double x - x\<bar> = \<bar>?n * ?q - \<bar>x\<bar>\<bar>"
      by (simp only: abs_minus_cancel)
    then show ?thesis using e by simp
  qed
qed

lemma round_double_ge_1:
  assumes "1 \<le> x"
  shows "1 \<le> round_double x"
proof -
  define k where "k = \<lfloor>log 2 \<bar>x\<bar>\<rfloor>"
  have x: "\<bar>x\<bar> = x" "0 < x" using assms by simp_all
  have k0: "0 \<le> k" using assms by (simp add: k_def x)
  have a: "2 powr real_of_int k = 2 powi k" by (simp add: powr_real_of_int')
  have "2 powr real_of_int k \<le> x"
    using floor_log_eq_powr_iff [of x 2 k] x by (simp add: k_def)
  then have lo: "2 powi k \<le> x" by (simp only: a)
  let ?q = "2 powi (k - 52) :: real"
  have m: "max k (- 1022) = k" using k0 by simp
  have kx: "\<lfloor>log 2 x\<rfloor> = k" by (simp add: k_def x)
  have q: "quantum x = ?q" by (simp only: quantum_def x(1) kx m)
  have qpos: "0 < ?q" by simp
  have split: "(2::real) powi k = 2 ^ 52 * ?q"
  proof -
    have "(2::real) powi k = 2 powi (52 + (k - 52))" by simp
    also have "\<dots> = 2 powi 52 * ?q" by (rule power_int_add) simp
    finally show ?thesis by simp
  qed
  have "(2::real) ^ 52 \<le> x / ?q"
    using lo qpos unfolding split by (simp add: pos_le_divide_eq)
  then have "(2::int) ^ 52 \<le> \<lfloor>x / ?q\<rfloor>" by (simp add: le_floor_iff)
  then have "(2::int) ^ 52 \<le> round_half_even (x / ?q)"
    using round_half_even_floor [of "x / ?q"] by linarith
  then have "(2::real) ^ 52 \<le> of_int (round_half_even (x / ?q))"
    by (metis of_int_le_iff of_int_numeral of_int_power)
  then have A: "(2::real) ^ 52 * ?q \<le> of_int (round_half_even (x / ?q)) * ?q"
    using qpos by (intro mult_right_mono) simp_all
  have C: "(1::real) \<le> 2 powi k" using k0 by (simp add: one_le_power_int)
  have "1 \<le> of_int (round_half_even (x / ?q)) * ?q"
    using A C unfolding split [symmetric] by linarith
  moreover have "round_double x = of_int (round_half_even (x / ?q)) * ?q"
    using x by (simp add: round_double_def q sgn_if)
  ultimately show ?thesis by simp
qed


lemma to_number_exact:
  assumes "2 powi k \<le> \<bar>x\<bar>" and "\<bar>x\<bar> < 2 powi (k + 1)" and "- 1022 \<le> k" and "k \<le> 1023"
    and "\<bar>x\<bar> / 2 powi (k - 52) \<in> \<int>"
  shows "to_number x = Num x"
proof -
  obtain n where n: "\<bar>x\<bar> / 2 powi (k - 52) = of_int n" using assms(5) by (rule Ints_cases)
  have "of_int (round_half_even (\<bar>x\<bar> / 2 powi (k - 52))) * 2 powi (k - 52) = \<bar>x\<bar>"
    unfolding n round_half_even_int using n [symmetric] by simp
  then have r: "round_double x = x"
    using round_double_eval [OF assms(1,2,3)] by (simp add: sgn_if)
  define B where "B = (2::real) ^ 1024"
  have "(2::real) powi (k + 1) \<le> 2 powi 1024"
    using assms(4) by (intro power_int_increasing) simp_all
  then have "\<bar>x\<bar> < B" using assms(2) by (simp add: B_def)
  then have "\<not> B \<le> x" and "\<not> x \<le> - B" by linarith+
  then show ?thesis unfolding to_number_def r Let_def B_def [symmetric] by simp
qed

lemma to_number_0: "to_number 0 = Num 0"
  by (simp add: to_number_def)

lemma to_number_1: "to_number 1 = Num 1"
proof -
  have "round_double 1 = 1"
    using round_double_eval [of 0 1] by (simp add: round_half_even_def Let_def power_int_minus)
  then show ?thesis by (simp add: to_number_def Let_def)
qed

lemma to_number_2: "to_number 2 = Num 2"
proof -
  have "round_double 2 = 2"
    using round_double_eval [of 1 2] by (simp add: round_half_even_def Let_def power_int_minus)
  then show ?thesis by (simp add: to_number_def Let_def)
qed

lemma tick_length: "num_div (Num (real TICK_INTERVAL)) (Num 1000) = Num 1"
  by (simp add: TICK_INTERVAL_def to_number_1)

lemma scheduler_move: "num_mul AGENT_SPEED (Num 1) = Num 2"
  by (simp add: AGENT_SPEED_def to_number_2)

lemma arrivalThreshold_value: "arrivalThreshold = Num (7205759403792794 / 2 ^ 56)"
proof -
  have "round_double (1 / 10) = 7205759403792794 / 2 ^ 56"
    using round_double_eval [of "- 4" "1 / 10"]
    by (simp add: round_half_even_def Let_def power_int_minus)
  then show ?thesis by (simp add: arrivalThreshold_def to_number_def Let_def)
qed

lemma to_number_at_least_1: "1 \<le> x \<Longrightarrow> at_least 1 (to_number x)"
  using round_double_ge_1 [of x] by (simp add: to_number_def at_least_def Let_def)

lemma to_number_at_least_0: "0 \<le> x \<Longrightarrow> at_least 0 (to_number x)"
  using round_double_nonneg [of x] by (simp add: to_number_def at_least_def Let_def)

lemma to_number_apart: "1 \<le> \<bar>x\<bar> \<Longrightarrow> apart (to_number x)"
proof (cases "0 \<le> x")
  case True
  assume "1 \<le> \<bar>x\<bar>"
  then show ?thesis using True round_double_ge_1 [of x]
    by (simp add: to_number_def apart_def Let_def)
next
  case False
  assume "1 \<le> \<bar>x\<bar>"
  then have "1 \<le> round_double (- x)" using False by (intro round_double_ge_1) simp
  then show ?thesis by (simp add: round_double_minus to_number_def apart_def Let_def)
qed

lemma square_apart: "apart n \<Longrightarrow> at_least 1 (num_mul n n)"
proof (cases n)
  case (Num v)
  assume "apart n"
  then have v: "1 \<le> \<bar>v\<bar>" using Num by (simp add: apart_def)
  have "1 * 1 \<le> \<bar>v\<bar> * \<bar>v\<bar>" using v by (intro mult_mono) simp_all
  then have "1 \<le> v * v" by simp
  then have "at_least 1 (to_number (v * v))" by (rule to_number_at_least_1)
  then show ?thesis using Num by simp
qed (simp_all add: apart_def at_least_def infinity_of_def)

lemma square_at_least_0: "num_mul n n = NaN \<or> at_least 0 (num_mul n n)"
proof (cases n)
  case (Num v)
  have "at_least 0 (to_number (v * v))" by (rule to_number_at_least_0) simp
  then show ?thesis using Num by simp
qed (simp_all add: at_least_def)

lemma add_at_least_1:
  assumes a: "at_least 1 a" and b: "b = NaN \<or> at_least 0 b"
  shows "num_add a b = NaN \<or> at_least 1 (num_add a b)"
    and "num_add b a = NaN \<or> at_least 1 (num_add b a)"
proof -
  have "(num_add a b = NaN \<or> at_least 1 (num_add a b))
      \<and> (num_add b a = NaN \<or> at_least 1 (num_add b a))"
  proof (cases a)
    case (Num u)
    then have u: "1 \<le> u" using a by (simp add: at_least_def)
    show ?thesis
    proof (cases b)
      case (Num v)
      then have "0 \<le> v" using b by (simp add: at_least_def)
      then have "at_least 1 (to_number (u + v))" "at_least 1 (to_number (v + u))"
        using u by (intro to_number_at_least_1, simp)+
      then show ?thesis using Num \<open>a = Num u\<close> by simp
    qed (use b in \<open>simp_all add: \<open>a = Num u\<close> at_least_def\<close>)
  next
    case PosInfinity
    then show ?thesis using b by (cases b) (simp_all add: at_least_def)
  qed (use a in \<open>simp_all add: at_least_def\<close>)
  then show "num_add a b = NaN \<or> at_least 1 (num_add a b)"
    and "num_add b a = NaN \<or> at_least 1 (num_add b a)" by simp_all
qed

lemma sqrt_at_least_1: "n = NaN \<or> at_least 1 n \<Longrightarrow> num_sqrt n = NaN \<or> at_least 1 (num_sqrt n)"
proof (cases n)
  case (Num v)
  assume "n = NaN \<or> at_least 1 n"
  then have v: "1 \<le> v" using Num by (simp add: at_least_def)
  then have "1 \<le> sqrt v" by simp
  then have "at_least 1 (to_number (sqrt v))" by (rule to_number_at_least_1)
  then show ?thesis using Num v by simp
qed (simp_all add: at_least_def)

lemma not_lt_threshold: "n = NaN \<or> at_least 1 n \<Longrightarrow> \<not> num_lt n arrivalThreshold"
  by (cases n) (simp_all add: at_least_def arrivalThreshold_value)

lemma sub_near:
  "num_sub b a = NaN \<or> apart (num_sub b a)
   \<or> (\<exists>u v. b = Num u \<and> a = Num v \<and> \<bar>u - v\<bar> < 1)"
proof (cases b; cases a)
  fix u v assume b: "b = Num u" and a: "a = Num v"
  show ?thesis
  proof (cases "\<bar>u - v\<bar> < 1")
    case True
    then show ?thesis using a b by simp
  next
    case False
    then have "apart (to_number (u - v))" by (intro to_number_apart) simp
    then show ?thesis using a b by (simp add: num_sub_def)
  qed
qed (simp_all add: num_sub_def apart_def)

lemma far_no_arrival:
  assumes "apart dx"
  shows "\<not> num_lt (num_sqrt (num_add (num_mul dx dx) (num_mul dy dy))) arrivalThreshold"
    and "\<not> num_lt (num_sqrt (num_add (num_mul dy dy) (num_mul dx dx))) arrivalThreshold"
proof -
  have a: "at_least 1 (num_mul dx dx)" using assms(1) by (rule square_apart)
  have b: "num_mul dy dy = NaN \<or> at_least 0 (num_mul dy dy)" by (rule square_at_least_0)
  show "\<not> num_lt (num_sqrt (num_add (num_mul dx dx) (num_mul dy dy))) arrivalThreshold"
    by (rule not_lt_threshold, rule sqrt_at_least_1, rule add_at_least_1 (1) [OF a b])
  show "\<not> num_lt (num_sqrt (num_add (num_mul dy dy) (num_mul dx dx))) arrivalThreshold"
    by (rule not_lt_threshold, rule sqrt_at_least_1, rule add_at_least_1 (2) [OF a b])
qed

lemma nan_no_arrival:
  "\<not> num_lt (num_sqrt (num_add (num_mul NaN NaN) y)) arrivalThreshold"
  "\<not> num_lt (num_sqrt (num_add y (num_mul NaN NaN))) arrivalThreshold"
  by (cases y; simp)+

lemma arrival_near:
  assumes "num_lt (distance p q) arrivalThreshold"
  shows "\<exists>ax ay hx hy. p_x p = Num ax \<and> p_y p = Num ay \<and> p_x q = Num hx \<and> p_y q = Num hy
           \<and> \<bar>hx - ax\<bar> < 1 \<and> \<bar>hy - ay\<bar> < 1"
proof -
  let ?dx = "num_sub (p_x q) (p_x p)" and ?dy = "num_sub (p_y q) (p_y p)"
  have lt: "num_lt (num_sqrt (num_add (num_mul ?dx ?dx) (num_mul ?dy ?dy))) arrivalThreshold"
    using assms by (simp add: distance_def Let_def)
  have nx: "?dx \<noteq> NaN" using lt nan_no_arrival(1) [of "num_mul ?dy ?dy"] by auto
  have ny: "?dy \<noteq> NaN" using lt nan_no_arrival(2) [of "num_mul ?dx ?dx"] by auto
  have fx: "\<not> apart ?dx" using lt far_no_arrival(1) [of ?dx ?dy] by auto
  have fy: "\<not> apart ?dy" using lt far_no_arrival(2) [of ?dy ?dx] by auto
  obtain hx ax where x: "p_x q = Num hx" "p_x p = Num ax" "\<bar>hx - ax\<bar> < 1"
    using sub_near [of "p_x q" "p_x p"] nx fx by blast
  obtain hy ay where y: "p_y q = Num hy" "p_y p = Num ay" "\<bar>hy - ay\<bar> < 1"
    using sub_near [of "p_y q" "p_y p"] ny fy by blast
  show ?thesis using x y by blast
qed


subsection \<open>Movement\<close>

lemma spec_step_distance:
  assumes "p \<noteq> q"
  shows "spec_distance p (spec_step p q s dt) = \<bar>min (s * dt) (spec_distance p q)\<bar>"
proof -
  let ?dx = "fst q - fst p" and ?dy = "snd q - snd p"
  let ?d = "spec_distance p q"
  let ?r = "min (s * dt) ?d"
  have "?dx \<noteq> 0 \<or> ?dy \<noteq> 0" using assms by (auto simp: prod_eq_iff)
  then have "0 < ?dx\<^sup>2 + ?dy\<^sup>2" by (auto intro: add_pos_nonneg add_nonneg_pos)
  then have d: "0 < ?d" by (simp add: spec_distance_def)
  have dd: "?d\<^sup>2 = ?dx\<^sup>2 + ?dy\<^sup>2" by (simp add: spec_distance_def)
  have "(?r * (?dx / ?d))\<^sup>2 + (?r * (?dy / ?d))\<^sup>2 = ?r\<^sup>2 * ((?dx\<^sup>2 + ?dy\<^sup>2) / ?d\<^sup>2)"
    by (simp add: power_mult_distrib power_divide add_divide_distrib distrib_left)
  also have "\<dots> = ?r\<^sup>2" using d by (simp add: dd [symmetric])
  finally have "(?r * (?dx / ?d))\<^sup>2 + (?r * (?dy / ?d))\<^sup>2 = ?r\<^sup>2" .
  then have "sqrt ((?r * (?dx / ?d))\<^sup>2 + (?r * (?dy / ?d))\<^sup>2) = \<bar>?r\<bar>" by simp
  then show ?thesis by (simp add: spec_step_def Let_def spec_distance_def [of p "(_, _)"])
qed

lemma spec_step_arrival:
  assumes "\<bar>fst q - fst p\<bar> < 1" and "\<bar>snd q - snd p\<bar> < 1"
  shows "spec_step p q 2 1 = q"
proof (cases "p = q")
  case True
  then show ?thesis by (simp add: spec_step_def Let_def)
next
  case False
  let ?dx = "fst q - fst p" and ?dy = "snd q - snd p"
  let ?d = "spec_distance p q"
  have "?dx \<noteq> 0 \<or> ?dy \<noteq> 0" using False by (auto simp: prod_eq_iff)
  then have "0 < ?dx\<^sup>2 + ?dy\<^sup>2" by (auto intro: add_pos_nonneg add_nonneg_pos)
  then have d: "0 < ?d" by (simp add: spec_distance_def)
  have "?dx\<^sup>2 < 1" "?dy\<^sup>2 < 1" using assms by (simp_all add: abs_square_less_1)
  then have "?dx\<^sup>2 + ?dy\<^sup>2 < 2\<^sup>2" by simp
  then have "?d < 2" unfolding spec_distance_def by (rule real_less_lsqrt [rotated]) simp
  then have "min (2 * 1) ?d = ?d" by simp
  then show ?thesis using d by (simp add: spec_step_def Let_def prod_eq_iff)
qed


lemma move_arrival:
  "fst (moveAgentToHub a h speed deltaTime)
     \<longleftrightarrow> num_lt (distance (agent_xy a) (hub_xy h)) arrivalThreshold"
  "fst (moveAgentToHub a h speed deltaTime) \<Longrightarrow> snd (moveAgentToHub a h speed deltaTime) = a"
  "\<not> fst (moveAgentToHub a h speed deltaTime) \<Longrightarrow>
     moveAgentToHub a h speed deltaTime
       = (let t = Math_min (num_div (num_mul speed deltaTime)
                     (distance (agent_xy a) (hub_xy h))) (Num 1)
          in (False, a\<lparr>a_position_x := lerp (a_position_x a) (h_position_x h) t,
                        a_position_y := lerp (a_position_y a) (h_position_y h) t\<rparr>))"
  by (simp_all add: moveAgentToHub_def Let_def agent_xy_def hub_xy_def lerpPoint_def
      split: if_splits)

lemma exact_move:
  assumes c: "a_position_x a = Num ax" "a_position_y a = Num ay"
      "h_position_x h = Num hx" "h_position_y h = Num hy"
    and ex: "exact_step (ax, ay) (hx, hy) s dt"
    and far: "\<not> fst (moveAgentToHub a h (Num s) (Num dt))"
  shows "moveAgentToHub a h (Num s) (Num dt)
           = (False, a\<lparr>a_position_x := Num (fst (spec_step (ax, ay) (hx, hy) s dt)),
                         a_position_y := Num (snd (spec_step (ax, ay) (hx, hy) s dt))\<rparr>)"
proof -
  define dx where "dx = hx - ax"
  define dy where "dy = hy - ay"
  define d where "d = sqrt (dx * dx + dy * dy)"
  define t where "t = min (s * dt / d) 1"
  have e: "to_number dx = Num dx" "to_number dy = Num dy" "to_number (dx * dx) = Num (dx * dx)"
    "to_number (dy * dy) = Num (dy * dy)" "to_number (dx * dx + dy * dy) = Num (dx * dx + dy * dy)"
    "to_number d = Num d" "to_number (s * dt) = Num (s * dt)"
    "to_number (s * dt / d) = Num (s * dt / d)" "to_number (dx * t) = Num (dx * t)"
    "to_number (dy * t) = Num (dy * t)" "to_number (ax + dx * t) = Num (ax + dx * t)"
    "to_number (ay + dy * t) = Num (ay + dy * t)"
    using ex by (simp_all add: exact_step_def Let_def is_double_def dx_def dy_def d_def t_def)
  have nn: "\<not> dx * dx + dy * dy < 0" by (simp add: not_less)
  have dist: "distance (agent_xy a) (hub_xy h) = Num d"
    using nn by (simp add: distance_def agent_xy_def hub_xy_def Let_def c num_sub_def
        dx_def [symmetric] dy_def [symmetric] e d_def [symmetric])
  have "\<not> num_lt (Num d) arrivalThreshold" using far dist by (simp add: move_arrival(1))
  then have dpos: "0 < d" by (simp add: arrivalThreshold_value not_less)
  have tt: "Math_min (num_div (to_number (s * dt)) (Num d)) (Num 1) = Num t"
    using dpos by (simp add: e t_def)
  have lx: "lerp (Num ax) (Num hx) (Num t) = Num (ax + dx * t)"
    by (simp add: lerp_def num_sub_def dx_def [symmetric] e)
  have ly: "lerp (Num ay) (Num hy) (Num t) = Num (ay + dy * t)"
    by (simp add: lerp_def num_sub_def dy_def [symmetric] e)
  have sd: "spec_distance (ax, ay) (hx, hy) = d"
    by (simp add: spec_distance_def d_def dx_def dy_def power2_eq_square)
  have r: "min (s * dt) d / d = t" using dpos by (simp add: t_def min_def field_simps)
  have sx: "fst (spec_step (ax, ay) (hx, hy) s dt) = ax + dx * t"
    and sy: "snd (spec_step (ax, ay) (hx, hy) s dt) = ay + dy * t"
  proof -
    have "min (s * dt) d * (v / d) = v * t" for v
      using r [symmetric] by simp
    then show "fst (spec_step (ax, ay) (hx, hy) s dt) = ax + dx * t"
      and "snd (spec_step (ax, ay) (hx, hy) s dt) = ay + dy * t"
      by (simp_all add: spec_step_def Let_def sd dx_def [symmetric] dy_def [symmetric])
  qed
  show ?thesis
    using move_arrival(3) [OF far] by (simp add: Let_def dist tt c lx ly sx sy)
qed


lemmas step_row_eq = step_row_def [unfolded tick_length]

lemmas updateAgentPosition_eq = updateAgentPosition_def [unfolded tick_length]

lemma updateAgentPosition_row:
  assumes hub: "a_target_hub a = Some t" "getHub v t = Some h" and st: "a_status a = TRAVELING"
    and hubs: "hubs v = hubs w"
  shows "fst (updateAgentPosition a v) = Return ()"
    and "hubs (snd (updateAgentPosition a v)) = hubs w"
    and "agents (snd (updateAgentPosition a v))
           = map (\<lambda>r. if a_id r = a_id a
                       then (if r = a then step_row w a
                             else if fst (moveAgentToHub a h AGENT_SPEED (Num 1)) then arrives h r
                             else r\<lparr>a_position_x := a_position_x (step_row w a),
                                    a_position_y := a_position_y (step_row w a)\<rparr>)
                       else r) (agents v)"
proof -
  obtain b a' where m: "moveAgentToHub a h AGENT_SPEED (Num 1) = (b, a')"
    by (cases "moveAgentToHub a h AGENT_SPEED (Num 1)")
  have gw: "getHub w t = Some h" using hub(2) hubs by (simp add: getHub_def)
  have sr: "step_row w a = (if b then arrives h a
              else a\<lparr>a_position_x := a_position_x a', a_position_y := a_position_y a'\<rparr>)"
    using hub(1) st gw m by (simp add: step_row_eq)
  have "fst (updateAgentPosition a v) = Return ()
    \<and> hubs (snd (updateAgentPosition a v)) = hubs w
    \<and> agents (snd (updateAgentPosition a v))
           = map (\<lambda>r. if a_id r = a_id a
                       then (if r = a then step_row w a
                             else if fst (moveAgentToHub a h AGENT_SPEED (Num 1)) then arrives h r
                             else r\<lparr>a_position_x := a_position_x (step_row w a),
                                    a_position_y := a_position_y (step_row w a)\<rparr>)
                       else r) (agents v)"
  proof (cases b)
    case True
    then show ?thesis
      using hub m hubs sr
      by (auto simp: updateAgentPosition_eq Let_def update_agents_def emit_def
          arrives_def split: option.splits)
  next
    case False
    then show ?thesis
      using hub m hubs sr
      by (auto simp: updateAgentPosition_eq Let_def update_agents_def emit_def
          getAgentPosition_def)
  qed
  then show "fst (updateAgentPosition a v) = Return ()"
    and "hubs (snd (updateAgentPosition a v)) = hubs w"
    and "agents (snd (updateAgentPosition a v))
           = map (\<lambda>r. if a_id r = a_id a
                       then (if r = a then step_row w a
                             else if fst (moveAgentToHub a h AGENT_SPEED (Num 1)) then arrives h r
                             else r\<lparr>a_position_x := a_position_x (step_row w a),
                                    a_position_y := a_position_y (step_row w a)\<rparr>)
                       else r) (agents v)"
    by simp_all
qed


lemma step_row_id: "a_id (step_row w r) = a_id r"
  by (simp add: step_row_def arrives_def split: option.splits prod.splits bool.splits)

lemma positions_loop:
  assumes "distinct (map a_id as)"
    and "\<forall>a \<in> set as. a_status a = TRAVELING
           \<and> (\<exists>t h. a_target_hub a = Some t \<and> getHub w t = Some h)"
    and "\<forall>a \<in> set as. \<forall>r \<in> set (agents v). a_id r = a_id a \<longrightarrow> r = a"
    and "hubs v = hubs w"
  shows "fst (for_each as updateAgentPosition v) = Return ()
     \<and> agents (snd (for_each as updateAgentPosition v))
         = map (\<lambda>r. if a_id r \<in> a_id ` set as then step_row w r else r) (agents v)"
  using assms
proof (induction as arbitrary: v)
  case Nil
  show ?case by simp
next
  case (Cons a as)
  obtain t h where hub: "a_target_hub a = Some t" "getHub w t = Some h"
    and st: "a_status a = TRAVELING"
    using Cons.prems(2) by auto
  have gv: "getHub v t = Some h" using hub(2) Cons.prems(4) by (simp add: getHub_def)
  obtain r1 v1 where u: "updateAgentPosition a v = (r1, v1)"
    by (cases "updateAgentPosition a v")
  have r1: "r1 = Return ()" and h1: "hubs v1 = hubs w"
    using updateAgentPosition_row(1,2) [OF hub(1) gv st Cons.prems(4)] u by simp_all
  have same: "\<forall>r \<in> set (agents v). a_id r = a_id a \<longrightarrow> r = a"
    using Cons.prems(3) by simp
  have a1: "agents v1 = map (\<lambda>r. if a_id r = a_id a then step_row w r else r) (agents v)"
  proof -
    have "(if a_id r = a_id a
           then (if r = a then step_row w a
                 else if fst (moveAgentToHub a h AGENT_SPEED (Num 1)) then arrives h r
                 else r\<lparr>a_position_x := a_position_x (step_row w a),
                        a_position_y := a_position_y (step_row w a)\<rparr>)
           else r) = (if a_id r = a_id a then step_row w r else r)"
      if "r \<in> set (agents v)" for r
    proof (cases "a_id r = a_id a")
      case True
      then have "r = a" using same that by blast
      then show ?thesis by simp
    next
      case False
      then show ?thesis by simp
    qed
    then show ?thesis
      using updateAgentPosition_row(3) [OF hub(1) gv st Cons.prems(4)] u
      by (simp cong: map_cong)
  qed
  have p3: "\<forall>b \<in> set as. \<forall>r \<in> set (agents v1). a_id r = a_id b \<longrightarrow> r = b"
  proof (intro ballI impI)
    fix b r assume b: "b \<in> set as" and r: "r \<in> set (agents v1)" and e: "a_id r = a_id b"
    have "a_id a \<notin> a_id ` set as" using Cons.prems(1) by simp
    then have ne: "a_id b \<noteq> a_id a" using b by (metis imageI)
    obtain r0 where r0: "r0 \<in> set (agents v)"
      "r = (if a_id r0 = a_id a then step_row w r0 else r0)"
      using r a1 by auto
    have "a_id r0 \<noteq> a_id a" using r0(2) e ne by (auto simp: step_row_id split: if_splits)
    then have "r = r0" using r0(2) by simp
    then show "r = b" using Cons.prems(3) b r0(1) e by simp
  qed
  have ih: "fst (for_each as updateAgentPosition v1) = Return ()
     \<and> agents (snd (for_each as updateAgentPosition v1))
         = map (\<lambda>r. if a_id r \<in> a_id ` set as then step_row w r else r) (agents v1)"
    using Cons.prems(1,2) p3 h1 by (intro Cons.IH) simp_all
  have na: "a_id a \<notin> a_id ` set as" using Cons.prems(1) by auto
  have "map (\<lambda>r. if a_id r \<in> a_id ` set as then step_row w r else r) (agents v1)
      = map (\<lambda>r. if a_id r \<in> a_id ` set (a # as) then step_row w r else r) (agents v)"
    unfolding a1 using na by (simp add: step_row_id)
  then show ?case using u r1 ih by simp
qed

lemma updateAgentPositions_rows:
  assumes d: "distinct (map a_id (agents w))" and tp: "targets_present w"
  shows "fst (updateAgentPositions w) = Return ()"
    and "agents (snd (updateAgentPositions w)) = map (step_row w) (agents w)"
proof -
  let ?sel = "\<lambda>a. a_target_hub a \<noteq> None \<and> a_status a = TRAVELING"
  let ?as = "filter ?sel (agents w)"
  have d1: "distinct (map a_id ?as)" using d by (rule distinct_map_filter)
  have p2: "\<forall>a \<in> set ?as. a_status a = TRAVELING
           \<and> (\<exists>t h. a_target_hub a = Some t \<and> getHub w t = Some h)"
    using tp by (auto simp: targets_present_def)
  have inj: "inj_on a_id (set (agents w))" using d by (simp add: distinct_map)
  have p3: "\<forall>a \<in> set ?as. \<forall>r \<in> set (agents w). a_id r = a_id a \<longrightarrow> r = a"
  proof (intro ballI impI)
    fix a r assume "a \<in> set ?as" and "r \<in> set (agents w)" and "a_id r = a_id a"
    then show "r = a" using inj by (intro inj_onD [OF inj]) simp_all
  qed
  have l: "fst (for_each ?as updateAgentPosition w) = Return ()
     \<and> agents (snd (for_each ?as updateAgentPosition w))
         = map (\<lambda>r. if a_id r \<in> a_id ` set ?as then step_row w r else r) (agents w)"
    by (rule positions_loop [OF d1 p2 p3 refl])
  have "(if a_id r \<in> a_id ` set ?as then step_row w r else r) = step_row w r"
    if "r \<in> set (agents w)" for r
  proof (cases "?sel r")
    case True
    then have "r \<in> set ?as" using that by simp
    then have "a_id r \<in> a_id ` set ?as" by (rule imageI)
    then show ?thesis by (simp only: if_True)
  next
    case False
    then have "step_row w r = r" by (auto simp: step_row_def split: option.splits)
    then show ?thesis by simp
  qed
  then have "map (\<lambda>r. if a_id r \<in> a_id ` set ?as then step_row w r else r) (agents w)
      = map (step_row w) (agents w)"
    by (intro map_cong) simp_all
  then show "fst (updateAgentPositions w) = Return ()"
    and "agents (snd (updateAgentPositions w)) = map (step_row w) (agents w)"
    using l by (simp_all add: updateAgentPositions_def)
qed


text \<open>The step from the origin towards the hub at distance 5, in double arithmetic.\<close>

lemma double_3: "to_number 3 = Num 3"
  by (rule to_number_exact [of 1]) (simp_all add: power_int_minus)
lemma double_4: "to_number 4 = Num 4"
  by (rule to_number_exact [of 2]) (simp_all add: power_int_minus)
lemma double_5: "to_number 5 = Num 5"
  by (rule to_number_exact [of 2]) (simp_all add: power_int_minus)
lemma double_9: "to_number 9 = Num 9"
  by (rule to_number_exact [of 3]) (simp_all add: power_int_minus)
lemma double_16: "to_number 16 = Num 16"
  by (rule to_number_exact [of 4]) (simp_all add: power_int_minus)
lemma double_25: "to_number 25 = Num 25"
  by (rule to_number_exact [of 4]) (simp_all add: power_int_minus)

lemma two_fifths: "to_number (2 / 5) = Num (7205759403792794 / 2 ^ 54)"
proof -
  have "round_double (2 / 5) = 7205759403792794 / 2 ^ 54"
    using round_double_eval [of "- 2" "2 / 5"]
    by (simp add: round_half_even_def Let_def power_int_minus)
  then show ?thesis by (simp add: to_number_def Let_def)
qed

lemma three_t: "to_number (3 * (7205759403792794 / 2 ^ 54)) = Num (5404319552844596 / 2 ^ 52)"
proof -
  have "round_double (3 * (7205759403792794 / 2 ^ 54)) = 5404319552844596 / 2 ^ 52"
    using round_double_eval [of 0 "3 * (7205759403792794 / 2 ^ 54)"]
    by (simp add: round_half_even_def Let_def power_int_minus)
  then show ?thesis by (simp add: to_number_def Let_def)
qed

lemma four_t: "to_number (4 * (7205759403792794 / 2 ^ 54)) = Num (7205759403792794 / 2 ^ 52)"
proof -
  have "to_number (7205759403792794 / 2 ^ 52) = Num (7205759403792794 / 2 ^ 52)"
    by (rule to_number_exact [of 0]) (simp_all add: power_int_minus)
  then show ?thesis by simp
qed

lemma x_new: "to_number (5404319552844596 / 2 ^ 52) = Num (5404319552844596 / 2 ^ 52)"
  by (rule to_number_exact [of 0]) (simp_all add: power_int_minus)

lemma y_new: "to_number (7205759403792794 / 2 ^ 52) = Num (7205759403792794 / 2 ^ 52)"
  by (rule to_number_exact [of 0]) (simp_all add: power_int_minus)

lemma sqrt_25: "sqrt 25 = 5"
proof -
  have "sqrt 25 = sqrt (5\<^sup>2)" by simp
  also have "\<dots> = 5" by (simp del: real_sqrt_four)
  finally show ?thesis .
qed

lemma trek_step:
  "moveAgentToHub (seed_agent ''A3'' ''coder'') far_hub AGENT_SPEED (Num 1)
     = (False, (seed_agent ''A3'' ''coder'')
          \<lparr>a_position_x := Num (5404319552844596 / 2 ^ 52),
            a_position_y := Num (7205759403792794 / 2 ^ 52)\<rparr>)"
proof -
  let ?a = "seed_agent ''A3'' ''coder''"
  have d: "distance (agent_xy ?a) (hub_xy far_hub) = Num 5"
    by (simp add: distance_def agent_xy_def hub_xy_def seed_agent_def far_hub_def Let_def
        num_sub_def double_3 double_4 double_9 double_16 double_25 double_5 sqrt_25)
  have far: "\<not> fst (moveAgentToHub ?a far_hub AGENT_SPEED (Num 1))"
    by (simp add: move_arrival(1) d arrivalThreshold_value)
  have t: "Math_min (num_div (num_mul AGENT_SPEED (Num 1)) (Num 5)) (Num 1)
             = Num (7205759403792794 / 2 ^ 54)"
    by (simp add: scheduler_move two_fifths)
  have x: "lerp (Num 0) (Num 3) (Num (7205759403792794 / 2 ^ 54))
             = Num (5404319552844596 / 2 ^ 52)"
    by (simp add: lerp_def num_sub_def double_3 three_t [simplified] x_new [simplified])
  have y: "lerp (Num 0) (Num 4) (Num (7205759403792794 / 2 ^ 54))
             = Num (7205759403792794 / 2 ^ 52)"
    by (simp add: lerp_def num_sub_def double_4 four_t [simplified] y_new [simplified])
  show ?thesis
    unfolding move_arrival(3) [OF far] d t Let_def
    using x y by (simp add: seed_agent_def far_hub_def)
qed


text \<open>The step from the origin towards the library, in double arithmetic.\<close>

lemma double_7: "to_number 7 = Num 7"
  by (rule to_number_exact [of 2]) (simp_all add: power_int_minus)
lemma double_49: "to_number 49 = Num 49"
  by (rule to_number_exact [of 5]) (simp_all add: power_int_minus)

lemma sqrt_49: "sqrt 49 = 7"
proof -
  have "sqrt 49 = sqrt (7\<^sup>2)" by simp
  also have "\<dots> = 7" by (simp del: real_sqrt_four)
  finally show ?thesis .
qed

lemma two_sevenths: "to_number (2 / 7) = Num (5146971002709138 / 2 ^ 54)"
proof -
  have "round_double (2 / 7) = 5146971002709138 / 2 ^ 54"
    using round_double_eval [of "- 2" "2 / 7"]
    by (simp add: round_half_even_def Let_def power_int_minus)
  then show ?thesis by (simp add: to_number_def Let_def)
qed

lemma seven_t: "to_number (7 * (5146971002709138 / 2 ^ 54)) = Num 2"
proof -
  have "round_double (7 * (5146971002709138 / 2 ^ 54)) = 2"
    using round_double_eval [of 0 "7 * (5146971002709138 / 2 ^ 54)"]
    by (simp add: round_half_even_def Let_def power_int_minus)
  then show ?thesis by (simp add: to_number_def Let_def)
qed

lemma library_step:
  "moveAgentToHub traveller library_hub AGENT_SPEED (Num 1)
     = (False, traveller\<lparr>a_position_x := Num 2, a_position_y := Num 0\<rparr>)"
proof -
  have d: "distance (agent_xy traveller) (hub_xy library_hub) = Num 7"
    by (simp add: distance_def agent_xy_def hub_xy_def traveller_def seed_agent_def
        library_hub_def Let_def num_sub_def double_7 double_49 sqrt_49 to_number_0)
  have far: "\<not> fst (moveAgentToHub traveller library_hub AGENT_SPEED (Num 1))"
    by (simp add: move_arrival(1) d arrivalThreshold_value)
  have t: "Math_min (num_div (num_mul AGENT_SPEED (Num 1)) (Num 7)) (Num 1)
             = Num (5146971002709138 / 2 ^ 54)"
    by (simp add: scheduler_move two_sevenths)
  have x: "lerp (Num 0) (Num 7) (Num (5146971002709138 / 2 ^ 54)) = Num 2"
    by (simp add: lerp_def num_sub_def double_7 seven_t [simplified] to_number_2)
  have y: "lerp (Num 0) (Num 0) (Num (5146971002709138 / 2 ^ 54)) = Num 0"
    by (simp add: lerp_def num_sub_def to_number_0)
  show ?thesis
    unfolding move_arrival(3) [OF far] d t Let_def
    using x y by (simp add: traveller_def seed_agent_def library_hub_def)
qed

text \<open>The step towards a hub one sixteenth away, and the last step before the library.\<close>

lemma sixteenth: "to_number (1 / 16) = Num (1 / 16)"
  by (rule to_number_exact [of "- 4"]) (simp_all add: power_int_minus)

lemma sixteenth_squared: "to_number (1 / 256) = Num (1 / 256)"
  by (rule to_number_exact [of "- 8"]) (simp_all add: power_int_minus)

lemma sqrt_256: "sqrt (1 / 256) = 1 / 16"
proof -
  have "sqrt (1 / 256) = sqrt ((1 / 16)\<^sup>2)" by (simp add: power2_eq_square)
  also have "\<dots> = \<bar>1 / 16\<bar>" by (rule real_sqrt_abs)
  finally show ?thesis by simp
qed

lemma near_distance:
  "distance (agent_xy (seed_agent ''A3'' ''coder'')) (hub_xy near_hub) = Num (1 / 16)"
  by (simp add: distance_def agent_xy_def hub_xy_def seed_agent_def near_hub_def Let_def
      num_sub_def sixteenth sixteenth_squared [simplified] to_number_0 sqrt_256)

lemma near_arrival:
  "moveAgentToHub (seed_agent ''A3'' ''coder'') near_hub speed deltaTime
     = (True, seed_agent ''A3'' ''coder'')"
proof -
  have "fst (moveAgentToHub (seed_agent ''A3'' ''coder'') near_hub speed deltaTime)"
    by (simp add: move_arrival(1) near_distance arrivalThreshold_value)
  then show ?thesis using move_arrival(2) by (simp add: prod_eq_iff)
qed

lemma last_step:
  "exact_step (6, 0) (7, 0) 2 1"
  "\<not> fst (moveAgentToHub last_leg library_hub (Num 2) (Num 1))"
  "spec_step (6, 0) (7, 0) 2 1 = (7, 0)"
proof -
  show "exact_step (6, 0) (7, 0) 2 1"
    by (simp add: exact_step_def Let_def is_double_def to_number_0 to_number_1 to_number_2
        double_7)
  have "distance (agent_xy last_leg) (hub_xy library_hub) = Num 1"
    by (simp add: distance_def agent_xy_def hub_xy_def last_leg_def at_hub_def library_hub_def
        Let_def num_sub_def to_number_0 to_number_1)
  then show "\<not> fst (moveAgentToHub last_leg library_hub (Num 2) (Num 1))"
    by (simp add: move_arrival(1) arrivalThreshold_value)
  show "spec_step (6, 0) (7, 0) 2 1 = (7, 0)"
    by (simp add: spec_step_def spec_distance_def Let_def)
qed

lemma trek_rows:
  "distinct (map a_id (agents trek_world))" "targets_present trek_world"
  "getHub trek_world ''far'' = Some far_hub"
  by (simp_all add: trek_world_def seed_world_def targets_present_def getHub_def far_hub_def)






subsection \<open>Travel to the current hub\<close>

text \<open>
  Claim C10. Asking an agent to travel to the hub it already occupies changes nothing:
  the store is returned as it was (status, target hub and position of the agent
  included) and no \<open>agent_move\<close> event is emitted.
\<close>

theorem assignAgentToHub_same_hub:
  "getAgent w aid = Some a \<Longrightarrow> a_current_hub a = Some hid
   \<Longrightarrow> assignAgentToHub aid hid w = (Return (), w)"
  by (simp add: assignAgentToHub_def)

theorem assignAgentToHub_same_hub_witness:
  "getAgent seed_world ''A3'' = Some (seed_agent ''A3'' ''coder'')
   \<and> a_current_hub (seed_agent ''A3'' ''coder'') = Some ''town_square''
   \<and> assignAgentToHub ''A3'' ''town_square'' seed_world = (Return (), seed_world)"
proof -
  have g: "getAgent seed_world ''A3'' = Some (seed_agent ''A3'' ''coder'')"
    by (simp add: getAgent_def seed_world_def seed_agents_def seed_agent_def)
  have h: "a_current_hub (seed_agent ''A3'' ''coder'') = Some ''town_square''"
    by (simp add: seed_agent_def)
  show ?thesis using g h assignAgentToHub_same_hub [OF g h] by simp
qed

subsection \<open>Order of dispatch\<close>

text \<open>
  Claim C1, as the code has it. One dispatch pass executes the selected subtasks in
  non-decreasing sequence order. A subtask is selected exactly when it is \<open>assigned\<close>
  and its agent is \<open>idle\<close> at the subtask's hub; the status of the subtasks with a
  lower sequence index is not consulted, so a subtask can start while a lower one of the
  same task is not completed.
\<close>

theorem readySubtasks_order:
  "sorted (map s_sequence (readySubtasks w))
   \<and> set (readySubtasks w) =
       {s \<in> set (subtasks w). s_status s = S_assigned
          \<and> (\<exists>a \<in> set (agents w). a_id a = s_agent_id s \<and> a_status a = IDLE
                \<and> a_current_hub a \<noteq> None \<and> a_current_hub a = s_hub_id s)}
   \<and> processSubtasks x w = for_each (readySubtasks w) (executeSubtask x) w"
proof -
  have A: "sorted (map s_sequence (readySubtasks w))"
    by (simp add: readySubtasks_def)
  have B: "set (readySubtasks w) =
       {s \<in> set (subtasks w). s_status s = S_assigned
          \<and> (\<exists>a \<in> set (agents w). a_id a = s_agent_id s \<and> a_status a = IDLE
                \<and> a_current_hub a \<noteq> None \<and> a_current_hub a = s_hub_id s)}"
    by (rule set_readySubtasks)
  show ?thesis using A B by (simp add: processSubtasks_def)
qed

theorem readySubtasks_order_witness:
  "sorted (map s_sequence (readySubtasks page_world))
   \<and> code_subtask \<in> set (readySubtasks page_world)
   \<and> design_subtask \<notin> set (readySubtasks page_world)
   \<and> design_subtask \<in> set (subtasks page_world)
   \<and> s_sequence design_subtask < s_sequence code_subtask
   \<and> s_status design_subtask \<noteq> S_completed"
  using readySubtasks_order [of page_world plain_ext]
  by (simp add: ex_defs)

theorem dispatch_out_of_order_counterexample:
  "map s_id (readySubtasks page_world) = [''S1'', ''S2'']
   \<and> statuses (snd (executeSubtask_begin code_subtask page_world))
       = [(''S0'', 0, S_assigned), (''S1'', 1, S_in_progress), (''S2'', 2, S_assigned)]
   \<and> statuses (snd (processSubtasks plain_ext page_world))
       = [(''S0'', 0, S_assigned), (''S1'', 1, S_completed), (''S2'', 2, S_completed)]"
  by (simp add: run_defs ex_defs)

subsection \<open>Failure of a subtask\<close>

text \<open>
  Claim C2, as the code has it. When the reasoning call of a subtask throws, the subtask
  is marked \<open>failed\<close> within the same execution step and the agent returns to
  \<open>idle\<close>, but no task changes: the owning task keeps its status, and every other
  subtask keeps its row, so it stays eligible for dispatch.
\<close>

theorem failed_call_leaves_task:
  assumes "executeSubtask_begin st w = (Return (a, prompt), w1)"
    and "callAgent x (calls w1) (a_type a) prompt = Throw e"
  shows "fst (executeSubtask x st w) = Return ()
    \<and> tasks (snd (executeSubtask x st w)) = tasks w
    \<and> subtasks (snd (executeSubtask x st w))
        = map (\<lambda>r. if s_id r = s_id st then r\<lparr>s_status := S_failed\<rparr> else r) (subtasks w)
    \<and> (\<forall>r \<in> set (agents (snd (executeSubtask x st w))). a_id r = a_id a \<longrightarrow> a_status r = IDLE)"
proof -
  have t: "tasks w1 = tasks w"
    using executeSubtask_begin_tasks [of st w] assms(1) by simp
  have s: "subtasks w1 = map (\<lambda>r. if s_id r = s_id st then r\<lparr>s_status := S_in_progress\<rparr> else r) (subtasks w)"
    using assms(1) by (rule executeSubtask_begin_subtasks)
  show ?thesis
    using assms t s
    by (auto simp: executeSubtask_def executeSubtask_resume_def update_subtasks_def
        update_agents_def emit_def Let_def)
qed

theorem failed_call_leaves_task_witness:
  "fst (executeSubtask_begin code_subtask page_world) \<noteq> Throw TypeError
   \<and> task_statuses (snd (executeSubtask failing_ext code_subtask page_world)) = [(''T1'', T_in_progress)]
   \<and> statuses (snd (executeSubtask failing_ext code_subtask page_world))
       = [(''S0'', 0, S_assigned), (''S1'', 1, S_failed), (''S2'', 2, S_assigned)]"
proof -
  obtain p w1 where b: "executeSubtask_begin code_subtask page_world = (Return (coder_row, p), w1)"
    and c: "calls w1 = 0"
    by (simp add: run_defs ex_defs)
  have t: "callAgent failing_ext (calls w1) (a_type coder_row) p = Throw (ApiError ''overloaded'')"
    by (simp add: c callAgent_def agentConfigs_def ex_defs)
  show ?thesis
    using failed_call_leaves_task [OF b t] b
    by (simp add: task_statuses_def statuses_def page_world_def page_task_def seed_world_def
        page_subtask_def code_subtask_def)
qed

theorem subtask_failure_counterexample:
  "statuses (snd (processSubtasks failing_ext page_world))
       = [(''S0'', 0, S_assigned), (''S1'', 1, S_failed), (''S2'', 2, S_completed)]
   \<and> task_statuses (snd (processSubtasks failing_ext page_world)) = [(''T1'', T_in_progress)]"
  by (simp add: run_defs ex_defs)

subsection \<open>Terminal statuses of a task\<close>

text \<open>
  Claim C3, as the code has it. Cancelling a task that is \<open>completed\<close> or
  \<open>cancelled\<close> leaves the tasks as they are, and a \<open>completed\<close> row stays
  \<open>completed\<close> under cancellation and under the completion check. The completion
  check does not consult the status it overwrites: when every subtask of the task is
  completed it sets the task to \<open>completed\<close>, whatever it was, \<open>cancelled\<close>
  included.
\<close>

theorem terminal_statuses:
  "((\<forall>t \<in> set (tasks w). t_id t = taskId \<longrightarrow> t_status t \<in> {T_completed, T_cancelled})
      \<longrightarrow> tasks (cancelTask taskId w) = tasks w)
   \<and> (\<forall>i < length (tasks w). t_status (tasks w ! i) = T_completed \<longrightarrow>
         t_status (tasks (cancelTask taskId w) ! i) = T_completed
         \<and> t_status (tasks (snd (checkTaskCompletion taskId w)) ! i) = T_completed)
   \<and> (all_completed w taskId \<longrightarrow>
         (\<forall>t \<in> set (tasks (snd (checkTaskCompletion taskId w))).
            t_id t = taskId \<longrightarrow> t_status t = T_completed))"
proof -
  have A: "(\<forall>t \<in> set (tasks w). t_id t = taskId \<longrightarrow> t_status t \<in> {T_completed, T_cancelled})
      \<longrightarrow> tasks (cancelTask taskId w) = tasks w"
    by (auto simp: cancelTask_def update_tasks_def emit_def intro!: map_idI)
  have B: "\<forall>i < length (tasks w). t_status (tasks w ! i) = T_completed \<longrightarrow>
         t_status (tasks (cancelTask taskId w) ! i) = T_completed
         \<and> t_status (tasks (snd (checkTaskCompletion taskId w)) ! i) = T_completed"
    by (simp add: cancelTask_def update_tasks_def emit_def checkTaskCompletion_tasks)
  have C: "all_completed w taskId \<longrightarrow>
         (\<forall>t \<in> set (tasks (snd (checkTaskCompletion taskId w))).
            t_id t = taskId \<longrightarrow> t_status t = T_completed)"
    using checkTaskCompletion_sets_completed [of w taskId] by blast
  show ?thesis using A B C by blast
qed

theorem terminal_statuses_witness:
  "task_statuses done_world = [(''T1'', T_cancelled)]
   \<and> all_completed done_world ''T1''
   \<and> tasks (cancelTask ''T1'' done_world) = tasks done_world
   \<and> task_statuses (snd (checkTaskCompletion ''T1'' done_world)) = [(''T1'', T_completed)]
   \<and> t_status (tasks (cancelTask ''T1'' (snd (checkTaskCompletion ''T1'' done_world))) ! 0)
       = T_completed"
proof -
  let ?w = "snd (checkTaskCompletion ''T1'' done_world)"
  have s: "task_statuses done_world = [(''T1'', T_cancelled)]"
    by (simp add: ex_defs)
  have a: "\<forall>t \<in> set (tasks done_world). t_id t = ''T1'' \<longrightarrow> t_status t \<in> {T_completed, T_cancelled}"
    by (simp add: ex_defs)
  have b: "all_completed done_world ''T1''"
    by (simp add: all_completed_def ex_defs)
  have "tasks ?w = map (\<lambda>t. if t_id t = ''T1''
                     then t\<lparr>t_status := T_completed,
                            t_download_url := Some (fst (packageResult ''T1'')),
                            t_preview_url := Some (snd (packageResult ''T1''))\<rparr>
                     else t) (tasks done_world)"
    by (simp only: checkTaskCompletion_tasks b if_True)
  then have c: "task_statuses ?w = [(''T1'', T_completed)]"
    by (simp add: ex_defs)
  then have d: "0 < length (tasks ?w)" "t_status (tasks ?w ! 0) = T_completed"
    by (auto simp: task_statuses_def)
  have g: "t_status (tasks (cancelTask ''T1'' ?w) ! 0) = T_completed"
    using terminal_statuses [of ?w "''T1''"] d by blast
  have h: "tasks (cancelTask ''T1'' done_world) = tasks done_world"
    using terminal_statuses [of done_world "''T1''"] a by blast
  show ?thesis using s b c g h by simp
qed

theorem cancelled_task_revived_counterexample:
  "fst (executeSubtask_begin code_subtask flight_world) = Return (coder_row, flight_prompt)
   \<and> task_statuses (cancelTask ''T1'' (snd (executeSubtask_begin code_subtask flight_world)))
       = [(''T1'', T_cancelled)]
   \<and> task_statuses (snd (executeSubtask_resume plain_ext code_subtask coder_row (Return ''done'')
         (cancelTask ''T1'' (snd (executeSubtask_begin code_subtask flight_world)))))
       = [(''T1'', T_completed)]
   \<and> task_statuses (cancelTask ''T1'' (flight_world\<lparr>tasks := [page_task\<lparr>t_status := T_failed\<rparr>]\<rparr>))
       = [(''T1'', T_cancelled)]"
  by (simp add: run_defs ex_defs)

subsection \<open>Fault containment of the tick\<close>

text \<open>
  Claim C6, as the code has it. A running tick always schedules the next tick, whatever
  its phases do. The phases run in one \<open>try\<close>: an exception of a phase ends the
  phases of that tick, and the store stays as that phase left it.
\<close>

theorem tick_fault_containment:
  "(running w \<longrightarrow> timers (tick x w) = timers (snd (tick_phases x w)) @ [NextTick TICK_INTERVAL])
   \<and> (processPendingTasks w = (Throw e, w1) \<longrightarrow> tick_phases x w = (Throw e, w1))
   \<and> (processPendingTasks w = (Return (), w1) \<and> updateAgentPositions w1 = (Throw e, w2)
        \<longrightarrow> tick_phases x w = (Throw e, w2))
   \<and> (processPendingTasks w = (Return (), w1) \<and> updateAgentPositions w1 = (Return (), w2)
        \<and> processSubtasks x w2 = (Throw e, w3) \<longrightarrow> tick_phases x w = (Throw e, w3))
   \<and> (processPendingTasks w = (Return (), w1) \<and> updateAgentPositions w1 = (Return (), w2)
        \<and> processSubtasks x w2 = (Return (), w3) \<longrightarrow> tick_phases x w = processMessages x w3)"
  by (simp add: tick_def tick_phases_def and_then_def Let_def)

theorem tick_fault_containment_witness:
  "running stuck_world
   \<and> timers (tick plain_ext stuck_world) = [NextTick 1000]
   \<and> fst (tick_phases plain_ext stuck_world) = Throw TypeError
   \<and> fst (processPendingTasks lost_world) = Return ()
   \<and> fst (tick_phases plain_ext lost_world) = Throw TypeError
   \<and> fst (updateAgentPositions gap_world) = Return ()
   \<and> fst (tick_phases plain_ext gap_world) = Throw TypeError
   \<and> tick_phases plain_ext seed_world = processMessages plain_ext seed_world"
proof -
  have r: "running stuck_world" by (simp add: ex_defs)
  obtain w1 where p1: "processPendingTasks stuck_world = (Throw TypeError, w1)"
    and t1: "timers w1 = []"
    by (simp add: tick_defs ex_defs)
  have l1: "processPendingTasks lost_world = (Return (), lost_world)"
    by (simp add: tick_defs ex_defs)
  obtain w2 where l2: "updateAgentPositions lost_world = (Throw TypeError, w2)"
    by (simp add: tick_defs ex_defs)
  have g1: "processPendingTasks gap_world = (Return (), gap_world)"
    by (simp add: tick_defs ex_defs)
  have g2: "updateAgentPositions gap_world = (Return (), gap_world)"
    by (simp add: tick_defs ex_defs)
  obtain w3 where g3: "processSubtasks plain_ext gap_world = (Throw TypeError, w3)"
    by (simp add: tick_defs ex_defs)
  have c1: "processPendingTasks seed_world = (Return (), seed_world)"
    by (simp add: tick_defs ex_defs)
  have c2: "updateAgentPositions seed_world = (Return (), seed_world)"
    by (simp add: tick_defs ex_defs)
  have c3: "processSubtasks plain_ext seed_world = (Return (), seed_world)"
    by (simp add: tick_defs ex_defs)
  show ?thesis
    using tick_fault_containment [of stuck_world plain_ext TypeError w1]
      tick_fault_containment [of lost_world plain_ext TypeError lost_world w2]
      tick_fault_containment [of gap_world plain_ext TypeError gap_world gap_world w3]
      tick_fault_containment [of seed_world plain_ext _ seed_world seed_world seed_world]
      r p1 t1 l1 l2 g1 g2 g3 c1 c2 c3
    by (simp add: TICK_INTERVAL_def)
qed

theorem tick_fault_containment_counterexample:
  "running stuck_world
   \<and> fst (processPendingTasks stuck_world) = Throw TypeError
   \<and> positions (snd (processPendingTasks stuck_world)) = [(''A2'', Num 0, Num 0)]
   \<and> positions (snd (updateAgentPositions (snd (processPendingTasks stuck_world))))
       = [(''A2'', Num 2, Num 0)]
   \<and> positions (tick plain_ext stuck_world) = [(''A2'', Num 0, Num 0)]
   \<and> timers (tick plain_ext stuck_world) = [NextTick 1000]"
proof -
  define w1 where "w1 = snd (processPendingTasks stuck_world)"
  have p: "fst (processPendingTasks stuck_world) = Throw TypeError"
    by (simp add: tick_defs ex_defs)
  have a1: "agents w1 = [traveller]" and h1: "getHub w1 ''library'' = Some library_hub"
    and ti: "timers w1 = []"
    unfolding w1_def
    by (simp_all add: processPendingTasks_def processPendingTask_def run_defs ex_defs)
  have "distinct (map a_id (agents w1))" "targets_present w1"
    using a1 h1 by (simp_all add: targets_present_def traveller_def)
  then have "agents (snd (updateAgentPositions w1)) = map (step_row w1) (agents w1)"
    by (rule updateAgentPositions_rows(2))
  also have "\<dots> = [traveller\<lparr>a_position_x := Num 2, a_position_y := Num 0\<rparr>]"
  proof -
    have "a_target_hub traveller = Some ''library''" "a_status traveller = TRAVELING"
      by (simp_all add: traveller_def)
    then show ?thesis using h1 by (simp add: a1 step_row_eq library_step)
  qed
  finally have m: "positions (snd (updateAgentPositions w1)) = [(''A2'', Num 2, Num 0)]"
    by (simp add: positions_def traveller_def seed_agent_def)
  have r: "running stuck_world" by (simp add: ex_defs)
  have pp: "processPendingTasks stuck_world = (Throw TypeError, w1)"
    using p unfolding w1_def by (cases "processPendingTasks stuck_world") simp
  have t: "tick plain_ext stuck_world = w1\<lparr>timers := timers w1 @ [NextTick TICK_INTERVAL]\<rparr>"
    using r by (simp add: tick_def tick_phases_def and_then_def Let_def pp)
  have "positions w1 = [(''A2'', Num 0, Num 0)]"
    by (simp add: positions_def a1 traveller_def seed_agent_def)
  then show ?thesis
    using p m r ti unfolding w1_def [symmetric]
    by (simp add: t positions_def TICK_INTERVAL_def)
qed

subsection \<open>Replies that are not a record\<close>

text \<open>
  A reply that \<open>JSON.parse\<close> rejects becomes the output as it is, and the step goes
  on to the completion check.
\<close>

lemma unparsable_reply_completes:
  assumes "JSON_parse x response = None"
  shows "parseAgentResponse x response = JObj [(''output'', JStr response)]"
    and "handleReply x st a response w =
           checkTaskCompletion (s_task_id st)
             (update_subtasks (\<lambda>r. s_id r = s_id st)
                (\<lambda>r. r\<lparr>s_status := S_completed, s_output := Some response\<rparr>) w)"
  using assms
  by (auto simp: parseAgentResponse_def handleReply_def Let_def and_then_def param_text_def
      split: prod.splits outcome.splits)

lemma claude_unparsable_reply:
  assumes "json_block response = None \<or> (\<exists>b. json_block response = Some b \<and> JSON_parse x b = None)"
  shows "claude_parseAgentResponse x response =
           JObj [(''output'', JStr response), (''saying'', JNull), (''thinking'', JNull),
                 (''doing'', JNull)]"
  using assms by (auto simp: claude_parseAgentResponse_def Let_def)

text \<open>
  Claim C9, at the reply \<open>null\<close>. The text parses, to \<open>null\<close>, so the fallback of
  \<open>Orchestrator.parseAgentResponse\<close> does not apply; reading \<open>parsed.thinking\<close>
  throws and the subtask is marked \<open>failed\<close>. For the reply of scenario B the subtask
  completes with the raw text as its output, and the parser of claude.js returns the raw
  text as output for the reply \<open>null\<close> too.
\<close>

theorem null_reply_fails:
  "statuses (snd (processSubtasks null_ext flight_world))
       = [(''S0'', 0, S_completed), (''S1'', 1, S_failed)]
   \<and> statuses (snd (processSubtasks plain_ext flight_world))
       = [(''S0'', 0, S_completed), (''S1'', 1, S_completed)]
   \<and> outputs (snd (processSubtasks plain_ext flight_world))
       = [(''S0'', Some ''a layout''), (''S1'', Some ''I did it, no JSON here'')]
   \<and> claude_parseAgentResponse null_ext ''null''
       = JObj [(''output'', JStr ''null''), (''saying'', JNull), (''thinking'', JNull),
               (''doing'', JNull)]"
  by (simp add: run_defs ex_defs claude_parseAgentResponse_def json_block_def)

subsection \<open>Completion of a task\<close>

lemma all_completed_cong:
  "subtasks w' = subtasks w \<Longrightarrow> all_completed w' k = all_completed w k"
  by (simp add: all_completed_def)

lemma owns_subtask_cong:
  "subtasks w' = subtasks w \<Longrightarrow> owns_subtask w' k = owns_subtask w k"
  by (simp add: owns_subtask_def)

lemma completion_inv_cong:
  "subtasks w' = subtasks w \<Longrightarrow> tasks w' = tasks w \<Longrightarrow> completion_inv w' = completion_inv w"
  by (simp add: completion_inv_def all_completed_def owns_subtask_def)

lemma row_pending_cong:
  "subtasks w' = subtasks w \<Longrightarrow> row_pending st w' = row_pending st w"
  by (simp add: row_pending_def)

lemma rewrites_other_task:
  assumes rw: "rewrites_rows (s_id st) f w w'" and rp: "row_pending st w" and other: "k \<noteq> s_task_id st"
  shows "all_completed w' k = all_completed w k" and "owns_subtask w' k = owns_subtask w k"
proof -
  have sub: "subtasks w' = map (\<lambda>r. if s_id r = s_id st then f r else r) (subtasks w)"
    and keep: "\<And>r. s_task_id (f r) = s_task_id r"
    using rw by (simp_all add: rewrites_rows_def)
  have t: "\<And>r. r \<in> set (subtasks w) \<Longrightarrow> s_id r = s_id st \<Longrightarrow> s_task_id r = s_task_id st"
    using rp by (simp add: row_pending_def)
  show "all_completed w' k = all_completed w k"
    unfolding all_completed_def sub using other keep t by auto
  show "owns_subtask w' k = owns_subtask w k"
    unfolding owns_subtask_def sub using other keep t by auto
qed

lemma rewrites_no_row:
  assumes rw: "rewrites_rows (s_id st) f w w'" and none: "\<forall>r \<in> set (subtasks w). s_id r \<noteq> s_id st"
  shows "subtasks w' = subtasks w"
proof -
  have "subtasks w' = map (\<lambda>r. if s_id r = s_id st then f r else r) (subtasks w)"
    using rw by (simp add: rewrites_rows_def)
  also have "\<dots> = subtasks w" using none by (intro map_idI) auto
  finally show ?thesis .
qed

lemma row_pending_not_all_completed:
  assumes "row_pending st w" and "r \<in> set (subtasks w)" and "s_id r = s_id st"
  shows "\<not> all_completed w (s_task_id st)" and "owns_subtask w (s_task_id st)"
  using assms by (auto simp: row_pending_def all_completed_def owns_subtask_def)

lemma inv_rewrite_open:
  assumes inv: "completion_inv w" and rp: "row_pending st w"
    and rw: "rewrites_rows (s_id st) f w w'" and opn: "\<And>r. s_status (f r) \<noteq> S_completed"
    and ts: "tasks w' = tasks w"
  shows "completion_inv w'"
proof (cases "\<exists>r \<in> set (subtasks w). s_id r = s_id st")
  case False
  then have "\<forall>r \<in> set (subtasks w). s_id r \<noteq> s_id st" by blast
  then have "subtasks w' = subtasks w" by (rule rewrites_no_row [OF rw])
  then have "completion_inv w' = completion_inv w" using ts by (rule completion_inv_cong)
  then show ?thesis using inv by simp
next
  case True
  then obtain r where r: "r \<in> set (subtasks w)" "s_id r = s_id st" by blast
  have nac: "\<not> all_completed w (s_task_id st)"
    using rp r by (rule row_pending_not_all_completed)
  have sub: "subtasks w' = map (\<lambda>r. if s_id r = s_id st then f r else r) (subtasks w)"
    and keep: "\<And>r. s_task_id (f r) = s_task_id r"
    using rw by (simp_all add: rewrites_rows_def)
  have "f r \<in> set (subtasks w')" using r sub by force
  moreover have "s_task_id (f r) = s_task_id st" using keep rp r by (simp add: row_pending_def)
  ultimately have nac': "\<not> all_completed w' (s_task_id st)"
    using opn [of r] by (auto simp: all_completed_def)
  show ?thesis
    unfolding completion_inv_def
  proof (intro ballI conjI impI)
    fix t assume t: "t \<in> set (tasks w')" and c: "t_status t = T_completed"
    have tw: "t \<in> set (tasks w)" using t ts by simp
    then have ac: "all_completed w (t_id t)" using inv c by (simp add: completion_inv_def)
    then have "t_id t \<noteq> s_task_id st" using nac by auto
    then show "all_completed w' (t_id t)" using rewrites_other_task(1) [OF rw rp] ac by simp
  next
    fix t assume t: "t \<in> set (tasks w')"
      and c: "owns_subtask w' (t_id t) \<and> all_completed w' (t_id t)"
    have tw: "t \<in> set (tasks w)" using t ts by simp
    have ne: "t_id t \<noteq> s_task_id st" using c nac' by auto
    then have "owns_subtask w (t_id t) \<and> all_completed w (t_id t)"
      using rewrites_other_task [OF rw rp ne] c by simp
    then show "t_status t = T_completed" using inv tw by (simp add: completion_inv_def)
  qed
qed

lemma inv_rewrite_checked:
  assumes inv: "completion_inv w" and rp: "row_pending st w"
    and rw: "rewrites_rows (s_id st) f w w'"
    and ts: "tasks w' = (if all_completed w' (s_task_id st)
                         then map (completes (s_task_id st)) (tasks w) else tasks w)"
  shows "completion_inv w'"
proof -
  let ?T = "s_task_id st"
  have tsT: "all_completed w' ?T \<Longrightarrow> set (tasks w') = completes ?T ` set (tasks w)"
    using ts by simp
  have tsF: "\<not> all_completed w' ?T \<Longrightarrow> set (tasks w') = set (tasks w)"
    using ts by simp
  have from_w: "\<exists>t \<in> set (tasks w). t' = t \<or> t' = completes ?T t"
    if "t' \<in> set (tasks w')" for t'
  proof (cases "all_completed w' ?T")
    case True
    then show ?thesis using tsT that by blast
  next
    case False
    then show ?thesis using tsF that by blast
  qed
  have cid: "\<And>t. t_id (completes ?T t) = t_id t"
    by (simp add: completes_def)
  have cother: "\<And>t. t_id t \<noteq> ?T \<Longrightarrow> completes ?T t = t"
    by (simp add: completes_def)
  have cown: "\<And>t. t_id t = ?T \<Longrightarrow> t_status (completes ?T t) = T_completed"
    by (simp add: completes_def)
  have key: "t_status t \<noteq> T_completed"
    if t: "t \<in> set (tasks w)" "t_id t = ?T" and n: "\<not> all_completed w' ?T" for t
  proof
    assume c: "t_status t = T_completed"
    have "all_completed w (t_id t)" using inv t(1) c unfolding completion_inv_def by blast
    then have ac: "all_completed w ?T" using t(2) by simp
    have "\<forall>r \<in> set (subtasks w). s_id r \<noteq> s_id st"
      using rp ac unfolding row_pending_def all_completed_def by blast
    then have "subtasks w' = subtasks w" by (rule rewrites_no_row [OF rw])
    then have "all_completed w' ?T = all_completed w ?T" by (rule all_completed_cong)
    then show False using ac n by simp
  qed
  show ?thesis
    unfolding completion_inv_def
  proof (intro ballI conjI impI)
    fix t' assume t': "t' \<in> set (tasks w')" and c: "t_status t' = T_completed"
    obtain t where t: "t \<in> set (tasks w)" "t' = t \<or> t' = completes ?T t"
      using from_w [OF t'] by blast
    have idt: "t_id t' = t_id t" using t(2) cid by auto
    show "all_completed w' (t_id t')"
    proof (cases "t_id t = ?T")
      case True
      show ?thesis
      proof (cases "all_completed w' ?T")
        case True
        then show ?thesis using idt \<open>t_id t = ?T\<close> by simp
      next
        case False
        then have "t' \<in> set (tasks w)" using tsF t' by simp
        moreover have "t_id t' = ?T" using idt True by simp
        ultimately have "t_status t' \<noteq> T_completed" using False by (rule key)
        then show ?thesis using c by simp
      qed
    next
      case False
      then have same: "t' = t" using t(2) cother by auto
      then have "all_completed w (t_id t)" using inv t(1) c unfolding completion_inv_def by blast
      then show ?thesis using rewrites_other_task(1) [OF rw rp False] idt by simp
    qed
  next
    fix t' assume t': "t' \<in> set (tasks w')"
      and c: "owns_subtask w' (t_id t') \<and> all_completed w' (t_id t')"
    obtain t where t: "t \<in> set (tasks w)" "t' = t \<or> t' = completes ?T t"
      using from_w [OF t'] by blast
    have idt: "t_id t' = t_id t" using t(2) cid by auto
    show "t_status t' = T_completed"
    proof (cases "t_id t = ?T")
      case True
      then have ac: "all_completed w' ?T" using c idt by simp
      then obtain t0 where t0: "t0 \<in> set (tasks w)" "t' = completes ?T t0"
        using tsT t' by blast
      have "t_id t0 = ?T" using t0(2) cid idt True by simp
      then show ?thesis using t0(2) cown by simp
    next
      case False
      then have same: "t' = t" using t(2) cother by auto
      have "owns_subtask w (t_id t) \<and> all_completed w (t_id t)"
        using rewrites_other_task [OF rw rp False] c idt by simp
      then show ?thesis using inv t(1) same unfolding completion_inv_def by blast
    qed
  qed
qed

lemma for_each_ok:
  assumes step: "\<And>y w. I w \<Longrightarrow> y \<in> set ys \<Longrightarrow> fst (f y w) = Return () \<and> I (snd (f y w))"
    and init: "I w"
  shows "fst (for_each ys f w) = Return () \<and> I (snd (for_each ys f w))"
  using assms
proof (induction ys arbitrary: w)
  case Nil
  then show ?case by simp
next
  case (Cons y ys)
  obtain r w1 where fy: "f y w = (r, w1)" by (cases "f y w")
  have h: "r = Return ()" "I w1" using Cons.prems(1) [of w y] Cons.prems(2) fy by auto
  have "fst (for_each ys f w1) = Return () \<and> I (snd (for_each ys f w1))"
    using Cons.IH [of w1] Cons.prems(1) h(2) by simp
  then show ?case using fy h by simp
qed

lemma getAgent_Some_iff: "getAgent w aid \<noteq> None \<longleftrightarrow> aid \<in> a_id ` set (agents w)"
  by (auto simp: getAgent_def find_None_iff)

lemma assignAgentToHub_ids:
  "map a_id (agents (snd (assignAgentToHub aid hid w))) = map a_id (agents w)"
  by (auto simp: assignAgentToHub_def update_agents_def emit_def Let_def split: option.splits)

lemma assignAgentToHub_ok:
  assumes "getHub w hid \<noteq> None" and "aid \<in> a_id ` set (agents w)"
  shows "fst (assignAgentToHub aid hid w) = Return ()"
proof -
  obtain a where a: "getAgent w aid = Some a" using assms(2) getAgent_Some_iff [of w aid] by auto
  obtain h where h: "getHub w hid = Some h" using assms(1) by auto
  have "getHub (update_agents (\<lambda>r. a_id r = aid)
          (\<lambda>r. r\<lparr>a_target_hub := Some hid, a_status := TRAVELING\<rparr>) w) hid = Some h"
    using h by (simp add: getHub_def update_agents_def)
  then show ?thesis using a h by (simp add: assignAgentToHub_def Let_def)
qed

lemma celebrateCompletion_ok:
  assumes "hub_present w"
  shows "fst (celebrateCompletion w) = Return ()"
proof -
  let ?I = "\<lambda>v::world. hubs v = hubs w \<and> map a_id (agents v) = map a_id (agents w)"
  have "fst (for_each (agents w) (\<lambda>a. assignAgentToHub (a_id a) town_square) w) = Return ()
        \<and> ?I (snd (for_each (agents w) (\<lambda>a. assignAgentToHub (a_id a) town_square) w))"
  proof (rule for_each_ok [where I = ?I])
    fix y v assume I: "?I v" and y: "y \<in> set (agents w)"
    have hp: "getHub v town_square \<noteq> None"
      using assms I by (simp add: hub_present_def getHub_def)
    have "a_id y \<in> set (map a_id (agents v))" using y I by simp
    then have "a_id y \<in> a_id ` set (agents v)" by simp
    then have "fst (assignAgentToHub (a_id y) town_square v) = Return ()"
      using hp by (intro assignAgentToHub_ok)
    then show "fst (assignAgentToHub (a_id y) town_square v) = Return ()
          \<and> ?I (snd (assignAgentToHub (a_id y) town_square v))"
      using I by (simp add: assignAgentToHub_ids)
  qed simp
  then show ?thesis
    by (cases "for_each (agents w) (\<lambda>a. assignAgentToHub (a_id a) town_square) w")
       (simp add: celebrateCompletion_def)
qed

lemma checkTaskCompletion_ok:
  assumes "hub_present w"
  shows "fst (checkTaskCompletion taskId w) = Return ()"
proof -
  have "hub_present (emit e (update_tasks P f w))" for e P f
    using assms by (simp add: hub_present_def getHub_def emit_def update_tasks_def)
  then show ?thesis
    by (simp add: checkTaskCompletion_def Let_def celebrateCompletion_ok split: prod.splits)
qed

lemma checkTaskCompletion_hubs [simp]: "hubs (snd (checkTaskCompletion taskId w)) = hubs w"
  by (simp add: checkTaskCompletion_def Let_def update_tasks_def emit_def split: prod.splits)

lemma help_chain_keeps:
  assumes "\<And>aid hid w. g (snd (assignAgentToHub aid hid w)) = g w"
    and "\<And>w es. g (w\<lparr>emitted := es\<rparr>) = g w"
  shows "g (snd (and_then (assignAgentToHub i1 town_square)
            (and_then (assignAgentToHub i2 town_square)
               (\<lambda>w2. (Return (), emit e w2))) w1)) = g w1"
  by (intro and_then_keeps) (simp_all add: emit_def assms)

lemma requestAgentHelp_keeps:
  assumes g1: "\<And>aid hid w. g (snd (assignAgentToHub aid hid w)) = g w"
    and g2: "\<And>w es. g (w\<lparr>emitted := es\<rparr>) = g w"
    and g3: "\<And>w ms n. g (w\<lparr>messages := ms, uuids := n\<rparr>) = g w"
  shows "g (snd (requestAgentHelp x a v topic taskId w)) = g w"
proof (cases "getAgentByType w (param_text x v)")
  case None
  then show ?thesis by (simp add: requestAgentHelp_def)
next
  case (Some toAgent)
  let ?c = "case topic of None \<Rightarrow> None | Some JNull \<Rightarrow> None | Some u \<Rightarrow> Some (param_text x u)"
  show ?thesis
  proof (cases ?c)
    case None
    then show ?thesis using Some by (simp add: requestAgentHelp_def)
  next
    case (Some content)
    have g4: "g (w\<lparr>uuids := n\<rparr>) = g w" for n using g3 [where w = w and ms = "messages w" and n = n] by simp
    show ?thesis
    proof (cases "getHub w town_square = None")
      case True
      then show ?thesis
        using \<open>getAgentByType w (param_text x v) = Some toAgent\<close> Some
        by (simp add: requestAgentHelp_def g4)
    next
      case False
      then show ?thesis
        using \<open>getAgentByType w (param_text x v) = Some toAgent\<close> Some
        by (simp add: requestAgentHelp_def Let_def help_chain_keeps [where g = g, OF g1 g2] g3 g4)
    qed
  qed
qed

lemma requestAgentHelp_tasks [simp]:
  "tasks (snd (requestAgentHelp x a v topic taskId w)) = tasks w"
  by (rule requestAgentHelp_keeps) simp_all

lemma requestAgentHelp_subtasks [simp]:
  "subtasks (snd (requestAgentHelp x a v topic taskId w)) = subtasks w"
  by (rule requestAgentHelp_keeps) simp_all

lemma requestAgentHelp_hubs [simp]:
  "hubs (snd (requestAgentHelp x a v topic taskId w)) = hubs w"
  by (rule requestAgentHelp_keeps) simp_all

lemma hub_present_cong: "hubs w' = hubs w \<Longrightarrow> hub_present w' = hub_present w"
  by (simp add: hub_present_def getHub_def)

lemma rewrites_rowsI:
  assumes "subtasks w' = map (\<lambda>r. if s_id r = sid then f r else r) (subtasks w)"
    and "\<And>r. s_id (f r) = s_id r" and "\<And>r. s_task_id (f r) = s_task_id r"
  shows "rewrites_rows sid f w w'"
  using assms by (simp add: rewrites_rows_def)

text \<open>What the body of the \<open>try\<close> leaves behind.\<close>

lemma handleReply_effect:
  assumes hp: "hub_present w"
  obtains (untouched) e where "handleReply x st a response w = (Throw e, w)"
  | (stored) e w' out where "handleReply x st a response w = (Throw e, w')"
      "tasks w' = tasks w" "hubs w' = hubs w"
      "subtasks w' = map (\<lambda>r. if s_id r = s_id st then stores out r else r) (subtasks w)"
  | (checked) w' out where "handleReply x st a response w = (Return (), w')"
      "hubs w' = hubs w"
      "subtasks w' = map (\<lambda>r. if s_id r = s_id st then stores out r else r) (subtasks w)"
      "tasks w' = (if all_completed w' (s_task_id st)
                   then map (completes (s_task_id st)) (tasks w) else tasks w)"
proof (cases "parseAgentResponse x response = JNull")
  case True
  then have "handleReply x st a response w = (Throw TypeError, w)"
    by (simp add: handleReply_def)
  then show ?thesis by (rule untouched)
next
  case False
  define parsed where "parsed = parseAgentResponse x response"
  define w1 where "w1 = (case field parsed ''thinking'' of
                        Some v \<Rightarrow> if truthy v then emit (agent_think (a_type a) v) w else w
                      | None \<Rightarrow> w)"
  define w2 where "w2 = (case field parsed ''saying'' of
                        Some v \<Rightarrow>
                          if truthy v
                          then emit (agent_speak (a_type a) v (field parsed ''toAgent'')) w1
                          else w1
                      | None \<Rightarrow> w1)"
  define out where "out = (case field parsed ''output'' of
                         Some v \<Rightarrow> if truthy v then param_text x v else response
                       | None \<Rightarrow> response)"
  define w3 where "w3 = update_subtasks (\<lambda>r. s_id r = s_id st)
                       (\<lambda>r. r\<lparr>s_status := S_completed, s_output := Some out\<rparr>) w2"
  define saved where "saved = (case field parsed ''files'' of
                       Some fs \<Rightarrow>
                         if truthy fs \<and> length_positive fs
                         then saveTaskFiles x (s_task_id st) fs (a_id a) else None
                     | None \<Rightarrow> None)"
  define ask where "ask = (case field parsed ''needsHelp'' of
                        Some v \<Rightarrow>
                          if truthy v
                          then requestAgentHelp x a v (field parsed ''helpTopic'') (s_task_id st)
                          else (\<lambda>w'. (Return (), w'))
                      | None \<Rightarrow> (\<lambda>w'. (Return (), w')))"
  have hr: "handleReply x st a response w =
              (case saved of Some e \<Rightarrow> (Throw e, w3)
               | None \<Rightarrow> and_then ask (checkTaskCompletion (s_task_id st)) w3)"
    unfolding handleReply_def Let_def parsed_def w1_def w2_def out_def w3_def saved_def ask_def
    by (simp only: False if_False)
  have f1: "tasks w1 = tasks w \<and> subtasks w1 = subtasks w \<and> hubs w1 = hubs w"
    by (simp add: w1_def emit_def split: option.splits)
  have f2: "tasks w2 = tasks w \<and> subtasks w2 = subtasks w \<and> hubs w2 = hubs w"
    using f1 by (simp add: w2_def emit_def split: option.splits)
  have f3: "tasks w3 = tasks w" "hubs w3 = hubs w"
    "subtasks w3 = map (\<lambda>r. if s_id r = s_id st then stores out r else r) (subtasks w)"
    using f2 by (simp_all add: w3_def update_subtasks_def stores_def)
  have fh: "tasks (snd (ask v)) = tasks v \<and> subtasks (snd (ask v)) = subtasks v
            \<and> hubs (snd (ask v)) = hubs v" for v
    by (simp add: ask_def split: option.splits)
  show ?thesis
  proof (cases saved)
    case (Some e)
    then have "handleReply x st a response w = (Throw e, w3)" using hr by simp
    then show ?thesis using f3 by (rule stored)
  next
    case None
    obtain r4 w4 where h4: "ask w3 = (r4, w4)" by (cases "ask w3")
    have f4: "tasks w4 = tasks w" "hubs w4 = hubs w"
      "subtasks w4 = map (\<lambda>r. if s_id r = s_id st then stores out r else r) (subtasks w)"
      using fh [of w3] h4 f3 by simp_all
    show ?thesis
    proof (cases r4)
      case (Throw e)
      then have "handleReply x st a response w = (Throw e, w4)"
        using hr None h4 by (simp add: and_then_def)
      then show ?thesis using f4 by (rule stored)
    next
      case (Return u)
      obtain r5 w5 where h5: "checkTaskCompletion (s_task_id st) w4 = (r5, w5)"
        by (cases "checkTaskCompletion (s_task_id st) w4")
      have "hub_present w4" using hp f4(2) hub_present_cong by blast
      then have r5: "r5 = Return ()"
        using checkTaskCompletion_ok [of w4 "s_task_id st"] h5 by simp
      have s5: "subtasks w5 = subtasks w4"
        using checkTaskCompletion_subtasks [of "s_task_id st" w4] h5 by simp
      have hb5: "hubs w5 = hubs w4"
        using checkTaskCompletion_hubs [of "s_task_id st" w4] h5 by simp
      have ac: "all_completed w5 (s_task_id st) = all_completed w4 (s_task_id st)"
        using s5 by (rule all_completed_cong)
      have t5: "tasks w5 = (if all_completed w5 (s_task_id st)
                   then map (completes (s_task_id st)) (tasks w) else tasks w)"
        using checkTaskCompletion_tasks [of "s_task_id st" w4] h5 f4(1) ac
        by (simp add: completes_def [abs_def])
      have "handleReply x st a response w = (Return (), w5)"
        using hr None h4 Return h5 r5 by (simp add: and_then_def)
      then show ?thesis using hb5 f4(2) s5 f4(3) t5 by (intro checked [of w5 out]) simp_all
    qed
  qed
qed

lemma resume_fields:
  "handleReply x st a response w = (r, w1) \<Longrightarrow>
   tasks (snd (executeSubtask_resume x st a (Return response) w)) = tasks w1
   \<and> hubs (snd (executeSubtask_resume x st a (Return response) w)) = hubs w1
   \<and> subtasks (snd (executeSubtask_resume x st a (Return response) w))
       = (case r of
            Throw e \<Rightarrow> map (\<lambda>r. if s_id r = s_id st then r\<lparr>s_status := S_failed\<rparr> else r) (subtasks w1)
          | Return u \<Rightarrow> subtasks w1)"
  by (cases r)
     (simp_all add: executeSubtask_resume_def update_subtasks_def update_agents_def emit_def Let_def)

lemma resume_thrown_fields:
  "tasks (snd (executeSubtask_resume x st a (Throw e) w)) = tasks w
   \<and> hubs (snd (executeSubtask_resume x st a (Throw e) w)) = hubs w
   \<and> subtasks (snd (executeSubtask_resume x st a (Throw e) w))
       = map (\<lambda>r. if s_id r = s_id st then r\<lparr>s_status := S_failed\<rparr> else r) (subtasks w)"
  by (simp add: executeSubtask_resume_def update_subtasks_def update_agents_def emit_def Let_def)

lemma resume_hubs: 
  assumes "hub_present w"
  shows "hubs (snd (executeSubtask_resume x st a reply w)) = hubs w"
proof (cases reply)
  case (Throw e)
  then show ?thesis using resume_thrown_fields [of x st a e w] by simp
next
  case (Return response)
  obtain r w1 where h: "handleReply x st a response w = (r, w1)"
    by (cases "handleReply x st a response w")
  have "hubs w1 = hubs w"
    by (rule handleReply_effect [OF assms, of x st a response]) (use h in auto)
  then show ?thesis using resume_fields [OF h] Return by simp
qed

lemma resume_inv:
  assumes inv: "completion_inv w" and hp: "hub_present w" and rp: "row_pending st w"
  shows "completion_inv (snd (executeSubtask_resume x st a reply w))"
proof -
  let ?w' = "snd (executeSubtask_resume x st a reply w)"
  have failed: "completion_inv ?w'"
    if "tasks ?w' = tasks w"
      "subtasks ?w' = map (\<lambda>r. if s_id r = s_id st then r\<lparr>s_status := S_failed\<rparr> else r) (subtasks w)"
  proof -
    have rw: "rewrites_rows (s_id st) (\<lambda>r. r\<lparr>s_status := S_failed\<rparr>) w ?w'"
      by (rule rewrites_rowsI [OF that(2)]) simp_all
    show ?thesis by (rule inv_rewrite_open [OF inv rp rw _ that(1)]) simp
  qed
  show ?thesis
  proof (cases reply)
    case (Throw e)
    then show ?thesis using resume_thrown_fields [of x st a e w] by (intro failed) simp_all
  next
    case (Return response)
    show ?thesis
    proof (rule handleReply_effect [OF hp, of x st a response])
      fix e assume untouched: "handleReply x st a response w = (Throw e, w)"
      show ?thesis using resume_fields [OF untouched] Return by (intro failed) simp_all
    next
      fix e w1 out
      assume stored: "handleReply x st a response w = (Throw e, w1)"
        "tasks w1 = tasks w" "hubs w1 = hubs w"
        "subtasks w1 = map (\<lambda>r. if s_id r = s_id st then stores out r else r) (subtasks w)"
      have sub: "subtasks ?w' = map (\<lambda>r. if s_id r = s_id st
                   then r\<lparr>s_status := S_failed, s_output := Some out\<rparr> else r) (subtasks w)"
        using resume_fields [OF stored(1)] stored(4) Return by (simp add: stores_def o_def)
      have rw: "rewrites_rows (s_id st) (\<lambda>r. r\<lparr>s_status := S_failed, s_output := Some out\<rparr>) w ?w'"
        by (rule rewrites_rowsI [OF sub]) simp_all
      have ts: "tasks ?w' = tasks w"
        using resume_fields [OF stored(1)] stored(2) Return by simp
      show ?thesis by (rule inv_rewrite_open [OF inv rp rw _ ts]) simp
    next
      fix w1 out
      assume checked: "handleReply x st a response w = (Return (), w1)"
        "hubs w1 = hubs w"
        "subtasks w1 = map (\<lambda>r. if s_id r = s_id st then stores out r else r) (subtasks w)"
        "tasks w1 = (if all_completed w1 (s_task_id st)
                   then map (completes (s_task_id st)) (tasks w) else tasks w)"
      have sub: "subtasks ?w' = subtasks w1" and ts: "tasks ?w' = tasks w1"
        using resume_fields [OF checked(1)] Return by simp_all
      have ac: "all_completed ?w' (s_task_id st) = all_completed w1 (s_task_id st)"
        using sub by (rule all_completed_cong)
      have sub': "subtasks ?w' = map (\<lambda>r. if s_id r = s_id st then stores out r else r) (subtasks w)"
        using sub checked(3) by simp
      have rw: "rewrites_rows (s_id st) (stores out) w ?w'"
        by (rule rewrites_rowsI [OF sub']) (simp_all add: stores_def)
      have ts': "tasks ?w' = (if all_completed ?w' (s_task_id st)
                   then map (completes (s_task_id st)) (tasks w) else tasks w)"
        using ts checked(4) ac by simp
      show ?thesis by (rule inv_rewrite_checked [OF inv rp rw ts'])
    qed
  qed
qed

lemma begin_fields:
  "tasks (snd (executeSubtask_begin st w)) = tasks w
   \<and> hubs (snd (executeSubtask_begin st w)) = hubs w
   \<and> (subtasks (snd (executeSubtask_begin st w)) = subtasks w
        \<or> subtasks (snd (executeSubtask_begin st w))
            = map (\<lambda>r. if s_id r = s_id st then r\<lparr>s_status := S_in_progress\<rparr> else r) (subtasks w))"
  by (simp add: executeSubtask_begin_def update_subtasks_def update_agents_def emit_def Let_def
      split: option.splits outcome.splits)

lemma begin_inv:
  assumes inv: "completion_inv w" and rp: "row_pending st w"
  shows "completion_inv (snd (executeSubtask_begin st w))"
    and "row_pending st (snd (executeSubtask_begin st w))"
proof -
  let ?w' = "snd (executeSubtask_begin st w)"
  have ts: "tasks ?w' = tasks w" using begin_fields [of st w] by simp
  consider (same) "subtasks ?w' = subtasks w"
    | (started) "subtasks ?w'
        = map (\<lambda>r. if s_id r = s_id st then r\<lparr>s_status := S_in_progress\<rparr> else r) (subtasks w)"
    using begin_fields [of st w] by blast
  then have "completion_inv ?w' \<and> row_pending st ?w'"
  proof cases
    case same
    have "completion_inv ?w' = completion_inv w" using same ts by (rule completion_inv_cong)
    moreover have "row_pending st ?w' = row_pending st w" using same by (rule row_pending_cong)
    ultimately show ?thesis using inv rp by simp
  next
    case started
    have rw: "rewrites_rows (s_id st) (\<lambda>r. r\<lparr>s_status := S_in_progress\<rparr>) w ?w'"
      by (rule rewrites_rowsI [OF started]) simp_all
    have "completion_inv ?w'"
      by (rule inv_rewrite_open [OF inv rp rw _ ts]) simp
    moreover have "row_pending st ?w'"
      using rp unfolding row_pending_def started by auto
    ultimately show ?thesis by simp
  qed
  then show "completion_inv ?w'" and "row_pending st ?w'" by simp_all
qed

lemma executeSubtask_inv:
  assumes inv: "completion_inv w" and hp: "hub_present w" and rp: "row_pending st w"
  shows "completion_inv (snd (executeSubtask x st w))"
proof -
  obtain r w1 where b: "executeSubtask_begin st w = (r, w1)"
    by (cases "executeSubtask_begin st w")
  have i1: "completion_inv w1" and r1: "row_pending st w1"
    using begin_inv [OF inv rp] b by simp_all
  have h1: "hub_present w1"
    using begin_fields [of st w] b hp hub_present_cong [of w1 w] by simp
  show ?thesis
  proof (cases r)
    case (Throw e)
    then show ?thesis using b i1 by (simp add: executeSubtask_def)
  next
    case (Return ap)
    obtain a prompt where ap: "ap = (a, prompt)" by (cases ap)
    let ?w2 = "w1\<lparr>calls := calls w1 + 1\<rparr>"
    have "completion_inv ?w2 = completion_inv w1" by (rule completion_inv_cong) simp_all
    moreover have "row_pending st ?w2 = row_pending st w1" by (rule row_pending_cong) simp
    moreover have "hub_present ?w2 = hub_present w1" by (rule hub_present_cong) simp
    ultimately have "completion_inv (snd (executeSubtask_resume x st a
                        (callAgent x (calls w1) (a_type a) prompt) ?w2))"
      using i1 r1 h1 by (intro resume_inv) simp_all
    then show ?thesis using b Return ap by (simp add: executeSubtask_def)
  qed
qed

lemma cancelTask_inv:
  assumes inv: "completion_inv w"
  shows "completion_inv (cancelTask taskId w)"
proof -
  let ?f = "\<lambda>t. if t_id t = taskId \<and> t_status t \<notin> {T_completed, T_cancelled}
                 then t\<lparr>t_status := T_cancelled\<rparr> else t"
  have ts: "tasks (cancelTask taskId w) = map ?f (tasks w)"
    and sub: "subtasks (cancelTask taskId w) = subtasks w"
    by (simp_all add: cancelTask_def update_tasks_def emit_def)
  have ac: "\<And>k. all_completed (cancelTask taskId w) k = all_completed w k"
    using sub by (rule all_completed_cong)
  have ow: "\<And>k. owns_subtask (cancelTask taskId w) k = owns_subtask w k"
    using sub by (rule owns_subtask_cong)
  show ?thesis
    unfolding completion_inv_def ac ow
  proof (intro ballI)
    fix t' assume "t' \<in> set (tasks (cancelTask taskId w))"
    then obtain t where t: "t \<in> set (tasks w)" "t' = ?f t" using ts by auto
    have i: "(t_status t = T_completed \<longrightarrow> all_completed w (t_id t))
        \<and> (owns_subtask w (t_id t) \<and> all_completed w (t_id t) \<longrightarrow> t_status t = T_completed)"
      using inv t(1) unfolding completion_inv_def by blast
    show "(t_status t' = T_completed \<longrightarrow> all_completed w (t_id t'))
        \<and> (owns_subtask w (t_id t') \<and> all_completed w (t_id t') \<longrightarrow> t_status t' = T_completed)"
      using i t(2) by (cases "t_id t = taskId \<and> t_status t \<notin> {T_completed, T_cancelled}") auto
  qed
qed

lemma checkTaskCompletion_inv:
  assumes inv: "completion_inv w"
  shows "completion_inv (snd (checkTaskCompletion taskId w))"
proof -
  let ?w' = "snd (checkTaskCompletion taskId w)"
  have sub: "subtasks ?w' = subtasks w" by simp
  have ac: "\<And>k. all_completed ?w' k = all_completed w k" using sub by (rule all_completed_cong)
  have ow: "\<And>k. owns_subtask ?w' k = owns_subtask w k" using sub by (rule owns_subtask_cong)
  show ?thesis
  proof (cases "all_completed w taskId")
    case False
    then have "tasks ?w' = tasks w" by (simp add: checkTaskCompletion_tasks)
    then have "completion_inv ?w' = completion_inv w" using sub by (intro completion_inv_cong)
    then show ?thesis using inv by simp
  next
    case True
    then have ts: "tasks ?w' = map (completes taskId) (tasks w)"
      by (simp add: checkTaskCompletion_tasks completes_def [abs_def])
    show ?thesis
      unfolding completion_inv_def ac ow
    proof (intro ballI)
      fix t' assume "t' \<in> set (tasks ?w')"
      then obtain t where t: "t \<in> set (tasks w)" "t' = completes taskId t" using ts by auto
      have i: "(t_status t = T_completed \<longrightarrow> all_completed w (t_id t))
          \<and> (owns_subtask w (t_id t) \<and> all_completed w (t_id t) \<longrightarrow> t_status t = T_completed)"
        using inv t(1) unfolding completion_inv_def by blast
      show "(t_status t' = T_completed \<longrightarrow> all_completed w (t_id t'))
          \<and> (owns_subtask w (t_id t') \<and> all_completed w (t_id t') \<longrightarrow> t_status t' = T_completed)"
        using i t(2) True by (cases "t_id t = taskId") (auto simp: completes_def)
    qed
  qed
qed

lemma checkTaskCompletion_decides:
  assumes inv: "completion_inv w" and t': "t' \<in> set (tasks (snd (checkTaskCompletion taskId w)))"
    and tid: "t_id t' = taskId"
  shows "t_status t' = T_completed \<longleftrightarrow> all_completed (snd (checkTaskCompletion taskId w)) taskId"
proof -
  let ?w' = "snd (checkTaskCompletion taskId w)"
  have ac: "all_completed ?w' taskId = all_completed w taskId"
    by (rule all_completed_cong) simp
  have "completion_inv ?w'" using inv by (rule checkTaskCompletion_inv)
  then have fwd: "t_status t' = T_completed \<Longrightarrow> all_completed ?w' taskId"
    using t' tid unfolding completion_inv_def by blast
  have bwd: "t_status t' = T_completed" if "all_completed ?w' taskId"
    using checkTaskCompletion_sets_completed [of w taskId t'] that ac t' tid by blast
  show ?thesis using fwd bwd by blast
qed

lemma one_agent_row:
  assumes "distinct (map a_id as)"
  shows "concat (map (\<lambda>a. if k = a_id a \<and> Q a then [s] else []) as) = []
       \<or> concat (map (\<lambda>a. if k = a_id a \<and> Q a then [s] else []) as) = [s]"
  using assms
proof (induction as)
  case Nil
  then show ?case by simp
next
  case (Cons a as)
  have ih: "concat (map (\<lambda>a. if k = a_id a \<and> Q a then [s] else []) as) = []
       \<or> concat (map (\<lambda>a. if k = a_id a \<and> Q a then [s] else []) as) = [s]"
    using Cons by simp
  show ?case
  proof (cases "k = a_id a")
    case True
    then have "\<forall>b \<in> set as. k \<noteq> a_id b" using Cons.prems by auto
    then have "concat (map (\<lambda>a. if k = a_id a \<and> Q a then [s] else []) as) = []"
      by (induction as) auto
    then show ?thesis by simp
  next
    case False
    then show ?thesis using ih by simp
  qed
qed

lemma distinct_selected:
  assumes d: "distinct (map s_id xs)" and sel: "\<And>s. g s = [] \<or> g s = [s]"
  shows "distinct (map s_id (concat (map g xs)))"
  using d
proof (induction xs)
  case Nil
  then show ?case by simp
next
  case (Cons x xs)
  have sub: "set (concat (map g xs)) \<subseteq> set xs"
    using sel by (induction xs) (auto, metis empty_iff empty_set set_ConsD)
  have nx: "s_id x \<notin> s_id ` set (concat (map g xs))"
    using Cons.prems sub by auto
  have ih: "distinct (map s_id (concat (map g xs)))" using Cons by simp
  show ?case using sel [of x] nx ih by auto
qed

lemma readySubtasks_distinct:
  assumes "distinct (map s_id (subtasks w))" and "distinct (map a_id (agents w))"
  shows "distinct (map s_id (readySubtasks w))"
proof -
  let ?g = "\<lambda>s. concat (map (\<lambda>a.
          if s_agent_id s = a_id a \<and> (s_status s = S_assigned \<and> a_status a = IDLE
             \<and> a_current_hub a \<noteq> None \<and> a_current_hub a = s_hub_id s)
          then [s] else []) (agents w))"
  have sel: "\<And>s. ?g s = [] \<or> ?g s = [s]"
    by (rule one_agent_row [OF assms(2)])
  have d: "distinct (map s_id (concat (map ?g (subtasks w))))"
    using assms(1) sel by (rule distinct_selected)
  have eq: "readySubtasks w = sort_key s_sequence (concat (map ?g (subtasks w)))"
    by (simp add: readySubtasks_def conj_assoc)
  have "distinct (concat (map ?g (subtasks w)))"
    and "inj_on s_id (set (concat (map ?g (subtasks w))))"
    using d by (simp_all add: distinct_map)
  then show ?thesis unfolding eq by (simp add: distinct_map)
qed

lemma readySubtasks_pending:
  assumes d: "distinct (map s_id (subtasks w))" and y: "y \<in> set (readySubtasks w)"
  shows "row_pending y w"
proof -
  have yin: "y \<in> set (subtasks w)" and ys: "s_status y = S_assigned"
    using y unfolding set_readySubtasks by auto
  have inj: "inj_on s_id (set (subtasks w))" using d by (simp add: distinct_map)
  show ?thesis
    unfolding row_pending_def
  proof (intro ballI impI)
    fix r assume "r \<in> set (subtasks w)" and "s_id r = s_id y"
    then have "r = y" using inj yin by (auto dest: inj_onD)
    then show "s_task_id r = s_task_id y \<and> s_status r \<noteq> S_completed" using ys by simp
  qed
qed

lemma rewrites_rows_same:
  "subtasks w' = subtasks w \<Longrightarrow> rewrites_rows sid (\<lambda>r. r) w w'"
  by (simp add: rewrites_rows_def map_idI)

lemma rewrites_rows_trans:
  assumes "rewrites_rows sid f w w1" and "rewrites_rows sid g w1 w2"
  shows "rewrites_rows sid (\<lambda>r. g (f r)) w w2"
  using assms by (simp add: rewrites_rows_def)

lemma rewrites_rows_cong:
  "rewrites_rows sid f w w1 \<Longrightarrow> subtasks w2 = subtasks w1 \<Longrightarrow> rewrites_rows sid f w w2"
  by (simp add: rewrites_rows_def)

lemma rewrites_keeps_pending:
  assumes rw: "rewrites_rows sid f w w'" and ne: "s_id y \<noteq> sid" and rp: "row_pending y w"
  shows "row_pending y w'"
proof -
  have sub: "subtasks w' = map (\<lambda>r. if s_id r = sid then f r else r) (subtasks w)"
    and keep: "\<And>r. s_id (f r) = s_id r"
    using rw by (simp_all add: rewrites_rows_def)
  show ?thesis
    unfolding row_pending_def
  proof (intro ballI impI)
    fix r' assume r': "r' \<in> set (subtasks w')" and id: "s_id r' = s_id y"
    then obtain r where r: "r \<in> set (subtasks w)" "r' = (if s_id r = sid then f r else r)"
      unfolding sub by auto
    have "s_id r \<noteq> sid" using r(2) id ne keep by (auto split: if_splits)
    then have "r' = r" using r(2) by simp
    then show "s_task_id r' = s_task_id y \<and> s_status r' \<noteq> S_completed"
      using rp r(1) id unfolding row_pending_def by auto
  qed
qed

lemma begin_rewrites:
  "\<exists>f. rewrites_rows (s_id st) f w (snd (executeSubtask_begin st w))"
proof -
  consider (same) "subtasks (snd (executeSubtask_begin st w)) = subtasks w"
    | (started) "subtasks (snd (executeSubtask_begin st w))
        = map (\<lambda>r. if s_id r = s_id st then r\<lparr>s_status := S_in_progress\<rparr> else r) (subtasks w)"
    using begin_fields [of st w] by blast
  then show ?thesis
  proof cases
    case same
    then show ?thesis using rewrites_rows_same by blast
  next
    case started
    have "rewrites_rows (s_id st) (\<lambda>r. r\<lparr>s_status := S_in_progress\<rparr>) w
            (snd (executeSubtask_begin st w))"
      by (rule rewrites_rowsI [OF started]) simp_all
    then show ?thesis by blast
  qed
qed

lemma resume_rewrites:
  assumes hp: "hub_present w"
  shows "\<exists>f. rewrites_rows (s_id st) f w (snd (executeSubtask_resume x st a reply w))"
proof -
  let ?w' = "snd (executeSubtask_resume x st a reply w)"
  have failed: "\<exists>f. rewrites_rows (s_id st) f w ?w'"
    if "subtasks ?w' = map (\<lambda>r. if s_id r = s_id st then r\<lparr>s_status := S_failed\<rparr> else r) (subtasks w)"
  proof -
    have "rewrites_rows (s_id st) (\<lambda>r. r\<lparr>s_status := S_failed\<rparr>) w ?w'"
      by (rule rewrites_rowsI [OF that]) simp_all
    then show ?thesis by blast
  qed
  show ?thesis
  proof (cases reply)
    case (Throw e)
    then show ?thesis using resume_thrown_fields [of x st a e w] by (intro failed) simp
  next
    case (Return response)
    show ?thesis
    proof (rule handleReply_effect [OF hp, of x st a response])
      fix e assume untouched: "handleReply x st a response w = (Throw e, w)"
      show ?thesis using resume_fields [OF untouched] Return by (intro failed) simp
    next
      fix e w1 out
      assume stored: "handleReply x st a response w = (Throw e, w1)"
        "tasks w1 = tasks w" "hubs w1 = hubs w"
        "subtasks w1 = map (\<lambda>r. if s_id r = s_id st then stores out r else r) (subtasks w)"
      have sub: "subtasks ?w' = map (\<lambda>r. if s_id r = s_id st
                   then r\<lparr>s_status := S_failed, s_output := Some out\<rparr> else r) (subtasks w)"
        using resume_fields [OF stored(1)] stored(4) Return by (simp add: stores_def o_def)
      have "rewrites_rows (s_id st) (\<lambda>r. r\<lparr>s_status := S_failed, s_output := Some out\<rparr>) w ?w'"
        by (rule rewrites_rowsI [OF sub]) simp_all
      then show ?thesis by blast
    next
      fix w1 out
      assume checked: "handleReply x st a response w = (Return (), w1)"
        "hubs w1 = hubs w"
        "subtasks w1 = map (\<lambda>r. if s_id r = s_id st then stores out r else r) (subtasks w)"
        "tasks w1 = (if all_completed w1 (s_task_id st)
                   then map (completes (s_task_id st)) (tasks w) else tasks w)"
      have sub: "subtasks ?w' = map (\<lambda>r. if s_id r = s_id st then stores out r else r) (subtasks w)"
        using resume_fields [OF checked(1)] Return checked(3) by simp
      have "rewrites_rows (s_id st) (stores out) w ?w'"
        by (rule rewrites_rowsI [OF sub]) (simp_all add: stores_def)
      then show ?thesis by blast
    qed
  qed
qed

lemma executeSubtask_rewrites:
  assumes hp: "hub_present w"
  shows "\<exists>f. rewrites_rows (s_id st) f w (snd (executeSubtask x st w))"
    and "hub_present (snd (executeSubtask x st w))"
proof -
  obtain r w1 where b: "executeSubtask_begin st w = (r, w1)"
    by (cases "executeSubtask_begin st w")
  obtain f where f: "rewrites_rows (s_id st) f w w1"
    using begin_rewrites [of st w] b by auto
  have h1: "hub_present w1"
    using begin_fields [of st w] b hp hub_present_cong [of w1 w] by simp
  have "(\<exists>f. rewrites_rows (s_id st) f w (snd (executeSubtask x st w)))
        \<and> hub_present (snd (executeSubtask x st w))"
  proof (cases r)
    case (Throw e)
    then show ?thesis using b f h1 by (auto simp: executeSubtask_def)
  next
    case (Return ap)
    obtain a prompt where ap: "ap = (a, prompt)" by (cases ap)
    let ?w2 = "w1\<lparr>calls := calls w1 + 1\<rparr>"
    let ?w3 = "snd (executeSubtask_resume x st a (callAgent x (calls w1) (a_type a) prompt) ?w2)"
    have f2: "rewrites_rows (s_id st) f w ?w2" using f by (rule rewrites_rows_cong) simp
    have h2: "hub_present ?w2" using h1 hub_present_cong [of ?w2 w1] by simp
    obtain g where g: "rewrites_rows (s_id st) g ?w2 ?w3"
      using resume_rewrites [OF h2] by blast
    have "rewrites_rows (s_id st) (\<lambda>r. g (f r)) w ?w3"
      using f2 g by (rule rewrites_rows_trans)
    moreover have "hub_present ?w3"
      using resume_hubs [OF h2, of x st a "callAgent x (calls w1) (a_type a) prompt"]
        h2 hub_present_cong [of ?w3 ?w2] by simp
    moreover have "snd (executeSubtask x st w) = ?w3"
      using b Return ap by (simp add: executeSubtask_def)
    ultimately show ?thesis by auto
  qed
  then show "\<exists>f. rewrites_rows (s_id st) f w (snd (executeSubtask x st w))"
    and "hub_present (snd (executeSubtask x st w))" by simp_all
qed

lemma dispatch_loop_inv:
  assumes "completion_inv w" and "hub_present w" and "distinct (map s_id rows)"
    and "\<forall>y \<in> set rows. row_pending y w"
  shows "completion_inv (snd (for_each rows (executeSubtask x) w))"
  using assms
proof (induction rows arbitrary: w)
  case Nil
  then show ?case by simp
next
  case (Cons y ys)
  obtain r w1 where e: "executeSubtask x y w = (r, w1)" by (cases "executeSubtask x y w")
  have rp: "row_pending y w" using Cons.prems(4) by simp
  have i1: "completion_inv w1"
    using executeSubtask_inv [OF Cons.prems(1) Cons.prems(2) rp, of x] e by simp
  have h1: "hub_present w1"
    using executeSubtask_rewrites(2) [OF Cons.prems(2), of x y] e by simp
  obtain f where f: "rewrites_rows (s_id y) f w w1"
    using executeSubtask_rewrites(1) [OF Cons.prems(2), of y x] e by auto
  have p1: "\<forall>y' \<in> set ys. row_pending y' w1"
  proof
    fix y' assume y': "y' \<in> set ys"
    then have "s_id y' \<in> s_id ` set ys" by (rule imageI)
    moreover have "s_id y \<notin> s_id ` set ys" using Cons.prems(3) by simp
    ultimately have "s_id y' \<noteq> s_id y" by metis
    then have "s_id y' \<noteq> s_id y" .
    moreover have "row_pending y' w" using Cons.prems(4) y' by simp
    ultimately show "row_pending y' w1" by (rule rewrites_keeps_pending [OF f])
  qed
  show ?case
  proof (cases r)
    case (Throw err)
    then show ?thesis using e i1 by simp
  next
    case (Return u)
    have "completion_inv (snd (for_each ys (executeSubtask x) w1))"
      using Cons.IH [OF i1 h1 _ p1] Cons.prems(3) by simp
    then show ?thesis using e Return by simp
  qed
qed

lemma processSubtasks_inv:
  assumes "completion_inv w" and "well_formed w"
  shows "completion_inv (snd (processSubtasks x w))"
proof -
  have d: "distinct (map s_id (subtasks w))" "distinct (map a_id (agents w))" "hub_present w"
    using assms(2) by (simp_all add: well_formed_def)
  have "distinct (map s_id (readySubtasks w))" using d(1,2) by (rule readySubtasks_distinct)
  moreover have "\<forall>y \<in> set (readySubtasks w). row_pending y w"
    using readySubtasks_pending [OF d(1)] by blast
  ultimately show ?thesis
    unfolding processSubtasks_def using assms(1) d(3) by (intro dispatch_loop_inv)
qed

lemma updateAgentPosition_frame:
  "tasks (snd (updateAgentPosition a w)) = tasks w"
  "subtasks (snd (updateAgentPosition a w)) = subtasks w"
  "hubs (snd (updateAgentPosition a w)) = hubs w"
  "map a_id (agents (snd (updateAgentPosition a w))) = map a_id (agents w)"
proof -
  let ?h = "case a_target_hub a of None \<Rightarrow> None | Some t \<Rightarrow> getHub w t"
  have "tasks (snd (updateAgentPosition a w)) = tasks w
   \<and> subtasks (snd (updateAgentPosition a w)) = subtasks w
   \<and> hubs (snd (updateAgentPosition a w)) = hubs w
   \<and> map a_id (agents (snd (updateAgentPosition a w))) = map a_id (agents w)"
  proof (cases ?h)
    case None
    then show ?thesis by (simp add: updateAgentPosition_eq)
  next
    case (Some h)
    obtain b a' where m: "moveAgentToHub a h AGENT_SPEED (Num 1) = (b, a')"
      by (cases "moveAgentToHub a h AGENT_SPEED (Num 1)")
    show ?thesis
    proof (cases b)
      case True
      then show ?thesis using Some m
        by (simp add: updateAgentPosition_eq Let_def update_agents_def emit_def o_def
            split: option.splits)
    next
      case False
      then show ?thesis using Some m
        by (simp add: updateAgentPosition_eq Let_def update_agents_def emit_def o_def)
    qed
  qed
  then show "tasks (snd (updateAgentPosition a w)) = tasks w"
    "subtasks (snd (updateAgentPosition a w)) = subtasks w"
    "hubs (snd (updateAgentPosition a w)) = hubs w"
    "map a_id (agents (snd (updateAgentPosition a w))) = map a_id (agents w)"
    by simp_all
qed

lemma updateAgentPositions_frame:
  "tasks (snd (updateAgentPositions w)) = tasks w"
  "subtasks (snd (updateAgentPositions w)) = subtasks w"
  "hubs (snd (updateAgentPositions w)) = hubs w"
  "map a_id (agents (snd (updateAgentPositions w))) = map a_id (agents w)"
  unfolding updateAgentPositions_def
  by (rule for_each_keeps, rule updateAgentPosition_frame)+

lemma processPendingTask_frame:
  "subtasks (snd (processPendingTask t w)) = subtasks w
   \<and> hubs (snd (processPendingTask t w)) = hubs w
   \<and> map a_id (agents (snd (processPendingTask t w))) = map a_id (agents w)
   \<and> tasks (snd (processPendingTask t w))
       = map (\<lambda>r. if t_id r = t_id t then r\<lparr>t_status := T_planning\<rparr> else r) (tasks w)"
proof -
  let ?w1 = "update_tasks (\<lambda>r. t_id r = t_id t) (\<lambda>r. r\<lparr>t_status := T_planning\<rparr>) w"
  have w1: "subtasks ?w1 = subtasks w" "hubs ?w1 = hubs w" "agents ?w1 = agents w"
    "tasks ?w1 = map (\<lambda>r. if t_id r = t_id t then r\<lparr>t_status := T_planning\<rparr> else r) (tasks w)"
    by (simp_all add: update_tasks_def)
  show ?thesis
  proof (cases "getAgentByType ?w1 ''planner''")
    case None
    then show ?thesis using w1 by (simp add: processPendingTask_def Let_def)
  next
    case (Some planner)
    obtain r w2 where a: "assignAgentToHub (a_id planner) planning_room ?w1 = (r, w2)"
      by (cases "assignAgentToHub (a_id planner) planning_room ?w1")
    have w2: "subtasks w2 = subtasks w" "hubs w2 = hubs w" "tasks w2 = tasks ?w1"
      "map a_id (agents w2) = map a_id (agents w)"
      using a assignAgentToHub_subtasks [of "a_id planner" planning_room ?w1]
        assignAgentToHub_hubs [of "a_id planner" planning_room ?w1]
        assignAgentToHub_tasks [of "a_id planner" planning_room ?w1]
        assignAgentToHub_ids [of "a_id planner" planning_room ?w1] w1
      by simp_all
    show ?thesis
      using Some a w2 w1(4)
      by (cases r) (simp_all add: processPendingTask_def Let_def emit_def)
  qed
qed

lemma plan_inv:
  assumes inv: "completion_inv w" and sub: "subtasks w' = subtasks w"
    and ts: "tasks w' = map (\<lambda>r. if t_id r = k then r\<lparr>t_status := T_planning\<rparr> else r) (tasks w)"
    and nd: "\<not> (owns_subtask w k \<and> all_completed w k)"
  shows "completion_inv w'"
proof -
  have ac: "\<And>j. all_completed w' j = all_completed w j" using sub by (rule all_completed_cong)
  have ow: "\<And>j. owns_subtask w' j = owns_subtask w j" using sub by (rule owns_subtask_cong)
  show ?thesis
    unfolding completion_inv_def ac ow
  proof (intro ballI)
    fix t' assume "t' \<in> set (tasks w')"
    then obtain t where t: "t \<in> set (tasks w)"
      "t' = (if t_id t = k then t\<lparr>t_status := T_planning\<rparr> else t)"
      unfolding ts by auto
    have i: "(t_status t = T_completed \<longrightarrow> all_completed w (t_id t))
        \<and> (owns_subtask w (t_id t) \<and> all_completed w (t_id t) \<longrightarrow> t_status t = T_completed)"
      using inv t(1) unfolding completion_inv_def by blast
    show "(t_status t' = T_completed \<longrightarrow> all_completed w (t_id t'))
        \<and> (owns_subtask w (t_id t') \<and> all_completed w (t_id t') \<longrightarrow> t_status t' = T_completed)"
    proof (cases "t_id t = k")
      case True
      then have "t_status t' = T_planning" "t_id t' = k" using t(2) by simp_all
      then show ?thesis using nd by simp
    next
      case False
      then have "t' = t" using t(2) by simp
      then show ?thesis using i by simp
    qed
  qed
qed

lemma processPendingTasks_inv:
  assumes inv: "completion_inv w"
  shows "completion_inv (snd (processPendingTasks w))"
    and "subtasks (snd (processPendingTasks w)) = subtasks w"
    and "hubs (snd (processPendingTasks w)) = hubs w"
    and "map a_id (agents (snd (processPendingTasks w))) = map a_id (agents w)"
proof -
  let ?rows = "take 5 (filter (\<lambda>t. t_status t = T_pending) (tasks w))"
  let ?I = "\<lambda>v::world. completion_inv v \<and> subtasks v = subtasks w \<and> hubs v = hubs w
              \<and> map a_id (agents v) = map a_id (agents w)"
  have "?I (snd (for_each ?rows processPendingTask w))"
  proof (rule for_each_inv [where I = ?I])
    fix y v assume I: "?I v" and y: "y \<in> set ?rows"
    have "y \<in> set (filter (\<lambda>t. t_status t = T_pending) (tasks w))"
      using y by (rule in_set_takeD)
    then have yin: "y \<in> set (tasks w)" and yp: "t_status y = T_pending" by simp_all
    have "owns_subtask w (t_id y) \<and> all_completed w (t_id y) \<longrightarrow> t_status y = T_completed"
      using inv yin unfolding completion_inv_def by blast
    then have nd0: "\<not> (owns_subtask w (t_id y) \<and> all_completed w (t_id y))"
      using yp by auto
    have sv: "subtasks v = subtasks w" using I by simp
    have nd: "\<not> (owns_subtask v (t_id y) \<and> all_completed v (t_id y))"
      using nd0 all_completed_cong [OF sv] owns_subtask_cong [OF sv] by simp
    have fr: "subtasks (snd (processPendingTask y v)) = subtasks v"
      "hubs (snd (processPendingTask y v)) = hubs v"
      "map a_id (agents (snd (processPendingTask y v))) = map a_id (agents v)"
      "tasks (snd (processPendingTask y v))
         = map (\<lambda>r. if t_id r = t_id y then r\<lparr>t_status := T_planning\<rparr> else r) (tasks v)"
      using processPendingTask_frame [of y v] by simp_all
    have iv: "completion_inv v" using I by simp
    have "completion_inv (snd (processPendingTask y v))"
      by (rule plan_inv [OF iv fr(1) fr(4) nd])
    then show "?I (snd (processPendingTask y v))" using I fr(1,2,3) by simp
  qed (simp add: inv)
  then show "completion_inv (snd (processPendingTasks w))"
    and "subtasks (snd (processPendingTasks w)) = subtasks w"
    and "hubs (snd (processPendingTasks w)) = hubs w"
    and "map a_id (agents (snd (processPendingTasks w))) = map a_id (agents w)"
    by (simp_all add: processPendingTasks_def)
qed

lemma deliverMessage_frame:
  "tasks (snd (deliverMessage x row w)) = tasks w"
  "subtasks (snd (deliverMessage x row w)) = subtasks w"
proof -
  obtain msg ft tt where row: "row = (msg, ft, tt)" by (cases row)
  let ?w1 = "update_messages (\<lambda>r. m_id r = m_id msg) (\<lambda>r. r\<lparr>m_read_at := True\<rparr>) w"
  show "tasks (snd (deliverMessage x row w)) = tasks w"
    by (cases "callAgent x (calls ?w1) tt (message_prompt ft (m_content msg))")
       (simp_all add: row deliverMessage_def update_messages_def emit_def Let_def)
  show "subtasks (snd (deliverMessage x row w)) = subtasks w"
    by (cases "callAgent x (calls ?w1) tt (message_prompt ft (m_content msg))")
       (simp_all add: row deliverMessage_def update_messages_def emit_def Let_def)
qed

lemma processMessages_frame:
  "tasks (snd (processMessages x w)) = tasks w"
  "subtasks (snd (processMessages x w)) = subtasks w"
  unfolding processMessages_def
  by (rule for_each_keeps, rule deliverMessage_frame)+

lemma well_formed_cong:
  "subtasks w' = subtasks w \<Longrightarrow> hubs w' = hubs w \<Longrightarrow> map a_id (agents w') = map a_id (agents w)
   \<Longrightarrow> well_formed w' = well_formed w"
  by (simp add: well_formed_def hub_present_def getHub_def)

lemma tick_inv:
  assumes inv: "completion_inv w" and wf: "well_formed w"
  shows "completion_inv (tick x w)"
proof -
  obtain r1 w1 where p1: "processPendingTasks w = (r1, w1)" by (cases "processPendingTasks w")
  obtain r2 w2 where p2: "updateAgentPositions w1 = (r2, w2)" by (cases "updateAgentPositions w1")
  obtain r3 w3 where p3: "processSubtasks x w2 = (r3, w3)" by (cases "processSubtasks x w2")
  obtain r4 w4 where p4: "processMessages x w3 = (r4, w4)" by (cases "processMessages x w3")
  have i1: "completion_inv w1" and wf1: "well_formed w1"
    using processPendingTasks_inv [OF inv] p1 wf well_formed_cong [of w1 w] by simp_all
  have f2: "tasks w2 = tasks w1" "subtasks w2 = subtasks w1" "hubs w2 = hubs w1"
    "map a_id (agents w2) = map a_id (agents w1)"
    using updateAgentPositions_frame [of w1] p2 by simp_all
  have i2: "completion_inv w2" using i1 completion_inv_cong [OF f2(2) f2(1)] by simp
  have wf2: "well_formed w2" using wf1 well_formed_cong [OF f2(2) f2(3) f2(4)] by simp
  have i3: "completion_inv w3" using processSubtasks_inv [OF i2 wf2, of x] p3 by simp
  have f4: "tasks w4 = tasks w3" "subtasks w4 = subtasks w3"
    using processMessages_frame [of x w3] p4 by simp_all
  have i4: "completion_inv w4" using i3 completion_inv_cong [OF f4(2) f4(1)] by simp
  have "snd (tick_phases x w) \<in> {w1, w2, w3, w4}"
    using p1 p2 p3 p4
    by (cases r1; cases r2; cases r3) (simp_all add: tick_phases_def and_then_def)
  then have ip: "completion_inv (snd (tick_phases x w))" using i1 i2 i3 i4 by auto
  show ?thesis
  proof (cases "running w")
    case False
    then show ?thesis using inv by (simp add: tick_def)
  next
    case True
    let ?v = "snd (tick_phases x w)"
    have "completion_inv (?v\<lparr>timers := timers ?v @ [NextTick TICK_INTERVAL]\<rparr>) = completion_inv ?v"
      by (rule completion_inv_cong) simp_all
    then show ?thesis using True ip by (simp add: tick_def Let_def)
  qed
qed

text \<open>
  Claim C4, as the code has it. A completed task has completed subtasks only, and a task
  that owns at least one subtask is completed once all of them are (a task as submitted
  owns none and is pending). Both hold again after a subtask has been executed, also when
  the execution is split at the reasoning call, in a store where the town square is in the
  hub registry and the executed row names non-completed rows of its task; after a
  cancellation; after a completion check; and after a whole tick, in a store with unique
  keys. Right after the completion check of a task, that task is completed if and only if
  all of its subtasks are completed.
\<close>

theorem completion_preserved:
  assumes "completion_inv w"
  shows "(hub_present w \<and> row_pending st w \<longrightarrow>
            completion_inv (snd (executeSubtask x st w))
            \<and> completion_inv (snd (executeSubtask_begin st w))
            \<and> completion_inv (snd (executeSubtask_resume x st a reply w)))
    \<and> completion_inv (cancelTask taskId w)
    \<and> completion_inv (snd (checkTaskCompletion taskId w))
    \<and> (\<forall>t \<in> set (tasks (snd (checkTaskCompletion taskId w))). t_id t = taskId \<longrightarrow>
          (t_status t = T_completed
             \<longleftrightarrow> all_completed (snd (checkTaskCompletion taskId w)) taskId))
    \<and> (well_formed w \<longrightarrow> completion_inv (tick x w))"
  using assms executeSubtask_inv [of w st x] begin_inv(1) [of w st]
    resume_inv [of w st x a reply] cancelTask_inv [of w taskId]
    checkTaskCompletion_inv [of w taskId] checkTaskCompletion_decides [of w _ taskId]
    tick_inv [of w x]
  by blast

theorem completion_preserved_witness:
  "completion_inv flight_world \<and> hub_present flight_world
   \<and> row_pending code_subtask flight_world
   \<and> completion_inv (snd (executeSubtask plain_ext code_subtask flight_world))
   \<and> task_statuses (snd (executeSubtask plain_ext code_subtask flight_world))
       = [(''T1'', T_completed)]
   \<and> statuses (snd (executeSubtask plain_ext code_subtask flight_world))
       = [(''S0'', 0, S_completed), (''S1'', 1, S_completed)]
   \<and> completion_inv desk_world \<and> well_formed desk_world
   \<and> completion_inv (tick plain_ext desk_world)
   \<and> task_statuses (tick plain_ext desk_world) = [(''T1'', T_completed)]
   \<and> statuses (tick plain_ext desk_world)
       = [(''S0'', 0, S_completed), (''S1'', 1, S_completed)]"
proof -
  have a: "completion_inv flight_world"
    by (simp add: completion_inv_def all_completed_def owns_subtask_def ex_defs)
  have b: "hub_present flight_world"
    by (simp add: hub_present_def getHub_def town_square_def ex_defs)
  have c: "row_pending code_subtask flight_world"
    by (simp add: row_pending_def ex_defs)
  have d: "task_statuses (snd (executeSubtask plain_ext code_subtask flight_world))
             = [(''T1'', T_completed)]
           \<and> statuses (snd (executeSubtask plain_ext code_subtask flight_world))
             = [(''S0'', 0, S_completed), (''S1'', 1, S_completed)]"
    by (simp add: run_defs ex_defs)
  have a': "completion_inv desk_world"
    by (simp add: completion_inv_def all_completed_def owns_subtask_def ex_defs)
  have w': "well_formed desk_world"
    by (simp add: well_formed_def hub_present_def getHub_def town_square_def ex_defs)
  have d': "task_statuses (tick plain_ext desk_world) = [(''T1'', T_completed)]
           \<and> statuses (tick plain_ext desk_world)
             = [(''S0'', 0, S_completed), (''S1'', 1, S_completed)]"
    by (simp add: tick_defs ex_defs)
  show ?thesis
    using completion_preserved [OF a, of code_subtask plain_ext]
      completion_preserved [OF a', of _ plain_ext] a b c d a' w' d'
    by simp
qed

theorem fresh_task_counterexample:
  "task_statuses (createTask plain_ext (Some ''build a page'') None seed_world)
     = [(''M'', T_pending)]
   \<and> subtasks (createTask plain_ext (Some ''build a page'') None seed_world) = []
   \<and> all_completed (createTask plain_ext (Some ''build a page'') None seed_world) ''M''"
  by (simp add: createTask_def emit_def all_completed_def Let_def ex_defs)

subsection \<open>Message delivery\<close>

lemma set_readyMessages:
  "set (readyMessages w) =
     {(m, a_type fa, a_type ta) | m fa ta.
        m \<in> set (messages w) \<and> fa \<in> set (agents w) \<and> ta \<in> set (agents w)
        \<and> m_from_agent_id m = a_id fa \<and> m_to_agent_id m = a_id ta \<and> \<not> m_read_at m
        \<and> a_current_hub fa = Some town_square \<and> a_current_hub ta = Some town_square}"
  by (auto simp: readyMessages_def split: if_splits)

lemma deliverMessage_messages:
  "messages (snd (deliverMessage x row w)) = map (mark_read {m_id (fst row)}) (messages w)"
  by (cases row)
     (auto simp: deliverMessage_def update_messages_def emit_def Let_def mark_read_def
        split: outcome.splits)

lemma deliverMessage_agents: "agents (snd (deliverMessage x row w)) = agents w"
  by (cases row)
     (auto simp: deliverMessage_def update_messages_def emit_def Let_def
        split: outcome.splits)

lemma mark_read_twice: "mark_read S (mark_read T r) = mark_read (S \<union> T) r"
  by (simp add: mark_read_def)

lemma mark_read_empty: "mark_read {} r = r"
  by (simp add: mark_read_def)

lemma for_each_deliver:
  "\<exists>k \<le> length rows.
     messages (snd (for_each rows (deliverMessage x) w))
       = map (mark_read (m_id ` fst ` set (take k rows))) (messages w)
     \<and> (fst (for_each rows (deliverMessage x) w) = Return () \<longrightarrow> k = length rows)"
proof (induction rows arbitrary: w)
  case Nil
  show ?case by (simp add: mark_read_empty [abs_def])
next
  case (Cons y ys)
  obtain r w1 where d: "deliverMessage x y w = (r, w1)" by (cases "deliverMessage x y w")
  have m1: "messages w1 = map (mark_read {m_id (fst y)}) (messages w)"
    using deliverMessage_messages [of x y w] d by simp
  show ?case
  proof (cases r)
    case (Throw e)
    have "messages (snd (for_each (y # ys) (deliverMessage x) w))
            = map (mark_read (m_id ` fst ` set (take 1 (y # ys)))) (messages w)"
      using d Throw m1 by simp
    moreover have "fst (for_each (y # ys) (deliverMessage x) w) \<noteq> Return ()"
      using d Throw by simp
    ultimately show ?thesis by (intro exI [of _ 1]) simp
  next
    case (Return u)
    obtain k where k: "k \<le> length ys"
      "messages (snd (for_each ys (deliverMessage x) w1))
         = map (mark_read (m_id ` fst ` set (take k ys))) (messages w1)"
      "fst (for_each ys (deliverMessage x) w1) = Return () \<longrightarrow> k = length ys"
      using Cons.IH [of w1] by blast
    have "messages (snd (for_each (y # ys) (deliverMessage x) w))
            = map (mark_read (m_id ` fst ` set (take (Suc k) (y # ys)))) (messages w)"
      using d Return k(2) m1 by (simp add: mark_read_twice o_def Un_commute insert_commute)
    moreover have "fst (for_each (y # ys) (deliverMessage x) w) = Return () \<longrightarrow> Suc k = length (y # ys)"
      using d Return k(3) by simp
    ultimately show ?thesis using k(1) by (intro exI [of _ "Suc k"]) simp
  qed
qed

lemma processMessages_agents: "agents (snd (processMessages x w)) = agents w"
  unfolding processMessages_def by (rule for_each_keeps) (rule deliverMessage_agents)

lemma messages_kept_refl: "messages_kept w w"
  by (simp add: messages_kept_def)

lemma messages_kept_same: "messages w' = messages w \<Longrightarrow> messages_kept w w'"
  by (simp add: messages_kept_def)

lemma messages_kept_trans:
  assumes "messages_kept a b" and "messages_kept b c"
  shows "messages_kept a c"
  unfolding messages_kept_def
proof (intro conjI allI impI)
  show "length (messages a) \<le> length (messages c)"
    using assms by (simp add: messages_kept_def)
next
  fix i assume i: "i < length (messages a)"
  then have ib: "i < length (messages b)" using assms(1) by (simp add: messages_kept_def)
  show "m_id (messages c ! i) = m_id (messages a ! i)"
    using assms i ib by (simp add: messages_kept_def)
next
  fix i assume i: "i < length (messages a)" and r: "m_read_at (messages a ! i)"
  then have ib: "i < length (messages b)" using assms(1) by (simp add: messages_kept_def)
  have "m_read_at (messages b ! i)" using assms(1) i r by (simp add: messages_kept_def)
  then show "m_read_at (messages c ! i)" using assms(2) ib by (simp add: messages_kept_def)
next
  assume "distinct (map m_id (messages a))"
  then have "distinct (map m_id (messages b))" using assms(1) by (simp add: messages_kept_def)
  then show "distinct (map m_id (messages c))" using assms(2) by (simp add: messages_kept_def)
qed

lemma mark_read_id: "m_id (mark_read S r) = m_id r"
  by (simp add: mark_read_def)

lemma messages_kept_marked:
  assumes "messages w' = map (mark_read S) (messages w)"
  shows "messages_kept w w'"
proof -
  have "map m_id (messages w') = map m_id (messages w)"
    using assms by (simp add: mark_read_id)
  then have "distinct (map m_id (messages w)) \<longrightarrow> distinct (map m_id (messages w'))" by simp
  then show ?thesis using assms by (simp add: messages_kept_def mark_read_def)
qed

lemma messages_kept_appended:
  "messages w' = messages w @ [m] \<Longrightarrow> m_id m \<notin> m_id ` set (messages w) \<Longrightarrow> messages_kept w w'"
  by (simp add: messages_kept_def nth_append)

lemma requestAgentHelp_messages_kept:
  "messages_kept w (snd (requestAgentHelp x a v topic taskId w))"
proof (cases "getAgentByType w (param_text x v)")
  case None
  then show ?thesis by (simp add: requestAgentHelp_def messages_kept_refl)
next
  case (Some toAgent)
  let ?c = "case topic of None \<Rightarrow> None | Some JNull \<Rightarrow> None | Some u \<Rightarrow> Some (param_text x u)"
  show ?thesis
  proof (cases ?c)
    case None
    then show ?thesis using Some by (simp add: requestAgentHelp_def messages_kept_refl)
  next
    case (Some content)
    show ?thesis
    proof (cases "uuid_generate_v4 x (uuids w) \<in> m_id ` set (messages w)
                  \<or> getHub w town_square = None")
      case True
      then have "messages (snd (requestAgentHelp x a v topic taskId w)) = messages w"
        using \<open>getAgentByType w (param_text x v) = Some toAgent\<close> Some
        by (auto simp: requestAgentHelp_def)
      then show ?thesis by (rule messages_kept_same)
    next
      case False
      have "messages (snd (requestAgentHelp x a v topic taskId w))
              = messages w @ [\<lparr>m_id = uuid_generate_v4 x (uuids w), m_task_id = taskId,
                                m_from_agent_id = a_id a, m_to_agent_id = a_id toAgent,
                                m_from_agent_type = a_type a,
                                m_to_agent_type = param_text x v,
                                m_content = content, m_hub_id = Some town_square,
                                m_read_at = False\<rparr>]"
        using False \<open>getAgentByType w (param_text x v) = Some toAgent\<close> Some
        by (simp add: requestAgentHelp_def Let_def
            help_chain_keeps [where g = messages, OF assignAgentToHub_messages])
      moreover have "uuid_generate_v4 x (uuids w) \<notin> m_id ` set (messages w)"
        using False by simp
      ultimately show ?thesis by (intro messages_kept_appended [where m = "\<lparr>m_id = uuid_generate_v4 x (uuids w), m_task_id = taskId,
                                m_from_agent_id = a_id a, m_to_agent_id = a_id toAgent,
                                m_from_agent_type = a_type a,
                                m_to_agent_type = param_text x v,
                                m_content = content, m_hub_id = Some town_square,
                                m_read_at = False\<rparr>"]) simp_all
    qed
  qed
qed

lemma checkTaskCompletion_messages [simp]:
  "messages (snd (checkTaskCompletion taskId w)) = messages w"
  by (simp add: checkTaskCompletion_def Let_def update_tasks_def emit_def split: prod.splits)

lemma and_then_rel:
  assumes trans: "\<And>a b c. R a b \<Longrightarrow> R b c \<Longrightarrow> R a c"
    and m: "\<And>w. R w (snd (m w))" and k: "\<And>w. R w (snd (k w))"
  shows "R w (snd (and_then m k w))"
proof -
  obtain r w1 where mw: "m w = (r, w1)" by (cases "m w")
  have r1: "R w w1" using m [of w] mw by simp
  show ?thesis
  proof (cases r)
    case (Throw e)
    then show ?thesis using mw r1 by (simp add: and_then_def)
  next
    case (Return u)
    have "R w1 (snd (k w1))" by (rule k)
    with r1 have "R w (snd (k w1))" by (rule trans)
    then show ?thesis using mw Return by (simp add: and_then_def)
  qed
qed

lemma handleReply_messages_kept: "messages_kept w (snd (handleReply x st a response w))"
proof (cases "parseAgentResponse x response = JNull")
  case True
  then show ?thesis by (simp add: handleReply_def messages_kept_refl)
next
  case False
  define parsed where "parsed = parseAgentResponse x response"
  define w1 where "w1 = (case field parsed ''thinking'' of
                        Some v \<Rightarrow> if truthy v then emit (agent_think (a_type a) v) w else w
                      | None \<Rightarrow> w)"
  define w2 where "w2 = (case field parsed ''saying'' of
                        Some v \<Rightarrow>
                          if truthy v
                          then emit (agent_speak (a_type a) v (field parsed ''toAgent'')) w1
                          else w1
                      | None \<Rightarrow> w1)"
  define out where "out = (case field parsed ''output'' of
                         Some v \<Rightarrow> if truthy v then param_text x v else response
                       | None \<Rightarrow> response)"
  define w3 where "w3 = update_subtasks (\<lambda>r. s_id r = s_id st)
                       (\<lambda>r. r\<lparr>s_status := S_completed, s_output := Some out\<rparr>) w2"
  define saved where "saved = (case field parsed ''files'' of
                       Some fs \<Rightarrow>
                         if truthy fs \<and> length_positive fs
                         then saveTaskFiles x (s_task_id st) fs (a_id a) else None
                     | None \<Rightarrow> None)"
  define ask where "ask = (case field parsed ''needsHelp'' of
                        Some v \<Rightarrow>
                          if truthy v
                          then requestAgentHelp x a v (field parsed ''helpTopic'') (s_task_id st)
                          else (\<lambda>w'. (Return (), w'))
                      | None \<Rightarrow> (\<lambda>w'. (Return (), w')))"
  have hr: "handleReply x st a response w =
              (case saved of Some e \<Rightarrow> (Throw e, w3)
               | None \<Rightarrow> and_then ask (checkTaskCompletion (s_task_id st)) w3)"
    unfolding handleReply_def Let_def parsed_def w1_def w2_def out_def w3_def saved_def ask_def
    by (simp only: False if_False)
  have m1: "messages w1 = messages w" by (simp add: w1_def emit_def split: option.splits)
  have m2: "messages w2 = messages w" using m1 by (simp add: w2_def emit_def split: option.splits)
  have m3: "messages w3 = messages w" using m2 by (simp add: w3_def update_subtasks_def)
  have k3: "messages_kept w w3" using m3 by (rule messages_kept_same)
  have ka: "messages_kept v (snd (ask v))" for v
    by (simp add: ask_def requestAgentHelp_messages_kept messages_kept_refl split: option.splits)
  have kc: "messages_kept v (snd (checkTaskCompletion (s_task_id st) v))" for v
    by (rule messages_kept_same) simp
  have "messages_kept w3 (snd (and_then ask (checkTaskCompletion (s_task_id st)) w3))"
    by (rule and_then_rel [where R = messages_kept, OF messages_kept_trans ka kc])
  with k3 have "messages_kept w (snd (and_then ask (checkTaskCompletion (s_task_id st)) w3))"
    by (rule messages_kept_trans)
  then show ?thesis using hr k3 by (cases saved) simp_all
qed

lemma executeSubtask_messages_kept: "messages_kept w (snd (executeSubtask x st w))"
proof -
  obtain r w1 where b: "executeSubtask_begin st w = (r, w1)"
    by (cases "executeSubtask_begin st w")
  have "messages (snd (executeSubtask_begin st w)) = messages w"
    by (simp add: executeSubtask_begin_def update_subtasks_def update_agents_def emit_def Let_def
        split: option.splits outcome.splits)
  then have m1: "messages w1 = messages w" using b by simp
  have res: "messages_kept v (snd (executeSubtask_resume x st a reply v))" for v a reply
  proof (cases reply)
    case (Throw e)
    have "messages (snd (executeSubtask_resume x st a (Throw e) v)) = messages v"
      by (simp add: executeSubtask_resume_def update_subtasks_def update_agents_def emit_def Let_def)
    then show ?thesis using Throw messages_kept_same by simp
  next
    case (Return response)
    obtain r2 v2 where h: "handleReply x st a response v = (r2, v2)"
      by (cases "handleReply x st a response v")
    have k: "messages_kept v v2" using handleReply_messages_kept [of v x st a response] h by simp
    have "messages (snd (executeSubtask_resume x st a (Return response) v)) = messages v2"
      using h
      by (cases r2)
         (simp_all add: executeSubtask_resume_def update_subtasks_def update_agents_def emit_def Let_def)
    then have "messages_kept v2 (snd (executeSubtask_resume x st a (Return response) v))"
      by (rule messages_kept_same)
    with k have "messages_kept v (snd (executeSubtask_resume x st a (Return response) v))"
      by (rule messages_kept_trans)
    then show ?thesis using Return by simp
  qed
  show ?thesis
  proof (cases r)
    case (Throw e)
    then show ?thesis using b m1 by (simp add: executeSubtask_def messages_kept_same)
  next
    case (Return ap)
    obtain a prompt where ap: "ap = (a, prompt)" by (cases ap)
    let ?w2 = "w1\<lparr>calls := calls w1 + 1\<rparr>"
    have "messages_kept w ?w2" using m1 by (intro messages_kept_same) simp
    moreover have "messages_kept ?w2 (snd (executeSubtask_resume x st a
                      (callAgent x (calls w1) (a_type a) prompt) ?w2))"
      by (rule res)
    ultimately have "messages_kept w (snd (executeSubtask_resume x st a
                      (callAgent x (calls w1) (a_type a) prompt) ?w2))"
      by (rule messages_kept_trans)
    then show ?thesis using b Return ap by (simp add: executeSubtask_def)
  qed
qed

lemma tick_messages_kept: "messages_kept w (tick x w)"
proof -
  have p1: "messages_kept v (snd (processPendingTasks v))" for v
  proof -
    have "messages (snd (processPendingTask t u)) = messages u" for t u
    proof -
      let ?u1 = "update_tasks (\<lambda>r. t_id r = t_id t) (\<lambda>r. r\<lparr>t_status := T_planning\<rparr>) u"
      have u1: "messages ?u1 = messages u" by (simp add: update_tasks_def)
      show ?thesis
      proof (cases "getAgentByType ?u1 ''planner''")
        case None
        then show ?thesis using u1 by (simp add: processPendingTask_def Let_def)
      next
        case (Some planner)
        obtain r u2 where a: "assignAgentToHub (a_id planner) planning_room ?u1 = (r, u2)"
          by (cases "assignAgentToHub (a_id planner) planning_room ?u1")
        have "messages u2 = messages u"
          using a assignAgentToHub_messages [of "a_id planner" planning_room ?u1] u1 by simp
        then show ?thesis
          using Some a by (cases r) (simp_all add: processPendingTask_def Let_def emit_def)
      qed
    qed
    then have "messages (snd (processPendingTasks v)) = messages v"
      unfolding processPendingTasks_def by (intro for_each_keeps)
    then show ?thesis by (rule messages_kept_same)
  qed
  have p2: "messages_kept v (snd (updateAgentPositions v))" for v
  proof -
    have "messages (snd (updateAgentPosition a u)) = messages u" for a u
    proof (cases "case a_target_hub a of None \<Rightarrow> None | Some t \<Rightarrow> getHub u t")
      case None
      then show ?thesis by (simp add: updateAgentPosition_eq)
    next
      case (Some h)
      obtain b a' where m: "moveAgentToHub a h AGENT_SPEED (Num 1) = (b, a')"
        by (cases "moveAgentToHub a h AGENT_SPEED (Num 1)")
      show ?thesis
        using Some m
        by (cases b)
           (simp_all add: updateAgentPosition_eq Let_def update_agents_def emit_def
              split: option.splits)
    qed
    then have "messages (snd (updateAgentPositions v)) = messages v"
      unfolding updateAgentPositions_def by (intro for_each_keeps)
    then show ?thesis by (rule messages_kept_same)
  qed
  have p3: "messages_kept v (snd (processSubtasks x v))" for v
    unfolding processSubtasks_def
    by (rule for_each_rel [where R = messages_kept, OF messages_kept_refl messages_kept_trans
          executeSubtask_messages_kept])
  have d4: "messages_kept u (snd (deliverMessage x row u))" for row u
    by (rule messages_kept_marked [OF deliverMessage_messages])
  have p4: "messages_kept v (snd (processMessages x v))" for v
    unfolding processMessages_def
    by (rule for_each_rel [where R = messages_kept, OF messages_kept_refl messages_kept_trans d4])
  have c34: "messages_kept v (snd (and_then (processSubtasks x) (processMessages x) v))" for v
    by (rule and_then_rel [where R = messages_kept, OF messages_kept_trans p3 p4])
  have c234: "messages_kept v (snd (and_then updateAgentPositions
                (and_then (processSubtasks x) (processMessages x)) v))" for v
    by (rule and_then_rel [where R = messages_kept, OF messages_kept_trans p2 c34])
  have "messages_kept w (snd (tick_phases x w))"
    unfolding tick_phases_def
    by (rule and_then_rel [where R = messages_kept, OF messages_kept_trans p1 c234])
  moreover have "messages_kept (snd (tick_phases x w))
      ((snd (tick_phases x w))\<lparr>timers := timers (snd (tick_phases x w)) @ [NextTick TICK_INTERVAL]\<rparr>)"
    by (rule messages_kept_same) simp
  ultimately have "messages_kept w
      ((snd (tick_phases x w))\<lparr>timers := timers (snd (tick_phases x w)) @ [NextTick TICK_INTERVAL]\<rparr>)"
    by (rule messages_kept_trans)
  then show ?thesis by (simp add: tick_def Let_def messages_kept_refl)
qed

lemma checkTaskCompletion_ids:
  "map a_id (agents (snd (checkTaskCompletion taskId w))) = map a_id (agents w)"
proof -
  have "map a_id (agents (snd (celebrateCompletion v))) = map a_id (agents v)" for v
    by (rule celebrateCompletion_keeps [where g = "\<lambda>w. map a_id (agents w)"])
       (simp_all add: assignAgentToHub_ids)
  then show ?thesis
    by (simp add: checkTaskCompletion_def Let_def update_tasks_def emit_def split: prod.splits)
qed

lemma requestAgentHelp_ids:
  "map a_id (agents (snd (requestAgentHelp x a v topic taskId w))) = map a_id (agents w)"
  by (rule requestAgentHelp_keeps [where g = "\<lambda>w. map a_id (agents w)"])
     (simp_all add: assignAgentToHub_ids)

lemma handleReply_ids:
  "map a_id (agents (snd (handleReply x st a response w))) = map a_id (agents w)"
proof (cases "parseAgentResponse x response = JNull")
  case True
  then show ?thesis by (simp add: handleReply_def)
next
  case False
  define parsed where "parsed = parseAgentResponse x response"
  define w1 where "w1 = (case field parsed ''thinking'' of
                        Some v \<Rightarrow> if truthy v then emit (agent_think (a_type a) v) w else w
                      | None \<Rightarrow> w)"
  define w2 where "w2 = (case field parsed ''saying'' of
                        Some v \<Rightarrow>
                          if truthy v
                          then emit (agent_speak (a_type a) v (field parsed ''toAgent'')) w1
                          else w1
                      | None \<Rightarrow> w1)"
  define out where "out = (case field parsed ''output'' of
                         Some v \<Rightarrow> if truthy v then param_text x v else response
                       | None \<Rightarrow> response)"
  define w3 where "w3 = update_subtasks (\<lambda>r. s_id r = s_id st)
                       (\<lambda>r. r\<lparr>s_status := S_completed, s_output := Some out\<rparr>) w2"
  define saved where "saved = (case field parsed ''files'' of
                       Some fs \<Rightarrow>
                         if truthy fs \<and> length_positive fs
                         then saveTaskFiles x (s_task_id st) fs (a_id a) else None
                     | None \<Rightarrow> None)"
  define ask where "ask = (case field parsed ''needsHelp'' of
                        Some v \<Rightarrow>
                          if truthy v
                          then requestAgentHelp x a v (field parsed ''helpTopic'') (s_task_id st)
                          else (\<lambda>w'. (Return (), w'))
                      | None \<Rightarrow> (\<lambda>w'. (Return (), w')))"
  have hr: "handleReply x st a response w =
              (case saved of Some e \<Rightarrow> (Throw e, w3)
               | None \<Rightarrow> and_then ask (checkTaskCompletion (s_task_id st)) w3)"
    unfolding handleReply_def Let_def parsed_def w1_def w2_def out_def w3_def saved_def ask_def
    by (simp only: False if_False)
  have m1: "agents w1 = agents w" by (simp add: w1_def emit_def split: option.splits)
  have m2: "agents w2 = agents w" using m1 by (simp add: w2_def emit_def split: option.splits)
  have m3: "agents w3 = agents w" using m2 by (simp add: w3_def update_subtasks_def)
  have ka: "map a_id (agents (snd (ask v))) = map a_id (agents v)" for v
    by (simp add: ask_def requestAgentHelp_ids split: option.splits)
  have "map a_id (agents (snd (and_then ask (checkTaskCompletion (s_task_id st)) w3)))
          = map a_id (agents w3)"
    by (rule and_then_keeps [where g = "\<lambda>w. map a_id (agents w)"])
       (simp_all add: ka checkTaskCompletion_ids)
  then show ?thesis using hr m3 by (cases saved) simp_all
qed

lemma executeSubtask_ids:
  "map a_id (agents (snd (executeSubtask x st w))) = map a_id (agents w)"
proof -
  obtain r w1 where b: "executeSubtask_begin st w = (r, w1)"
    by (cases "executeSubtask_begin st w")
  have "map a_id (agents (snd (executeSubtask_begin st w))) = map a_id (agents w)"
    by (simp add: executeSubtask_begin_def update_subtasks_def update_agents_def emit_def Let_def
        o_def split: option.splits outcome.splits cong: map_cong)
  then have m1: "map a_id (agents w1) = map a_id (agents w)" using b by simp
  have res: "map a_id (agents (snd (executeSubtask_resume x st a reply v))) = map a_id (agents v)"
    for v a reply
  proof (cases reply)
    case (Throw e)
    then show ?thesis
      by (simp add: executeSubtask_resume_def update_subtasks_def update_agents_def emit_def
          Let_def o_def cong: map_cong)
  next
    case (Return response)
    obtain r2 v2 where h: "handleReply x st a response v = (r2, v2)"
      by (cases "handleReply x st a response v")
    have k: "map a_id (agents v2) = map a_id (agents v)"
      using handleReply_ids [of x st a response v] h by simp
    have "map a_id (agents (snd (executeSubtask_resume x st a (Return response) v)))
            = map a_id (agents v2)"
      using h
      by (cases r2)
         (simp_all add: executeSubtask_resume_def update_subtasks_def update_agents_def emit_def
            Let_def o_def cong: map_cong)
    then show ?thesis using k Return by simp
  qed
  show ?thesis
  proof (cases r)
    case (Throw e)
    then show ?thesis using b m1 by (simp add: executeSubtask_def)
  next
    case (Return ap)
    obtain a prompt where ap: "ap = (a, prompt)" by (cases ap)
    show ?thesis
      using b Return ap m1 res [of a "callAgent x (calls w1) (a_type a) prompt"
          "w1\<lparr>calls := calls w1 + 1\<rparr>"]
      by (simp add: executeSubtask_def)
  qed
qed

lemma tick_agent_ids: "map a_id (agents (tick x w)) = map a_id (agents w)"
proof -
  let ?g = "\<lambda>w. map a_id (agents w)"
  have p1: "?g (snd (processPendingTasks v)) = ?g v" for v
    unfolding processPendingTasks_def
    by (rule for_each_keeps [where g = ?g]) (simp add: processPendingTask_frame)
  have p2: "?g (snd (updateAgentPositions v)) = ?g v" for v
    by (rule updateAgentPositions_frame(4))
  have p3: "?g (snd (processSubtasks x v)) = ?g v" for v
    unfolding processSubtasks_def
    by (rule for_each_keeps [where g = ?g]) (rule executeSubtask_ids)
  have p4: "?g (snd (processMessages x v)) = ?g v" for v
    by (simp add: processMessages_agents)
  have c34: "?g (snd (and_then (processSubtasks x) (processMessages x) v)) = ?g v" for v
    by (rule and_then_keeps [where g = ?g]) (rule p3, rule p4)
  have c234: "?g (snd (and_then updateAgentPositions
                (and_then (processSubtasks x) (processMessages x)) v)) = ?g v" for v
    by (rule and_then_keeps [where g = ?g]) (rule p2, rule c34)
  have "?g (snd (tick_phases x w)) = ?g w"
    unfolding tick_phases_def
    by (rule and_then_keeps [where g = ?g]) (rule p1, rule c234)
  then show ?thesis by (simp add: tick_def Let_def)
qed

lemma tick_keys: "keys_unique w \<Longrightarrow> keys_unique (tick x w)"
  using tick_messages_kept [of w x] tick_agent_ids [of x w]
  by (simp add: keys_unique_def messages_kept_def)

lemma ticks_keys: "keys_unique w \<Longrightarrow> keys_unique (ticks xs w)"
  unfolding ticks_def by (induction xs arbitrary: w) (simp_all add: tick_keys)

lemma ticks_messages_kept: "messages_kept w (ticks xs w)"
  unfolding ticks_def
proof (induction xs arbitrary: w)
  case Nil
  show ?case by (simp add: messages_kept_refl)
next
  case (Cons x xs)
  have "messages_kept w (tick x w)" by (rule tick_messages_kept)
  moreover have "messages_kept (tick x w) (fold tick xs (tick x w))" by (rule Cons.IH)
  ultimately show ?case by (simp add: messages_kept_trans [of w "tick x w"])
qed


lemma single_match:
  assumes d: "distinct (map a_id as)"
    and key: "\<And>a. a \<in> set as \<Longrightarrow> H a \<noteq> [] \<Longrightarrow> a_id a = k"
    and one: "\<And>a. a \<in> set as \<Longrightarrow> length (H a) \<le> 1"
  shows "length (concat (map H as)) \<le> 1"
  using assms
proof (induction as)
  case Nil
  show ?case by simp
next
  case (Cons a as)
  have ih: "length (concat (map H as)) \<le> 1" using Cons by simp
  show ?case
  proof (cases "H a = []")
    case True
    then show ?thesis using ih by simp
  next
    case False
    then have ka: "a_id a = k" using Cons.prems(2) by simp
    have "H b = []" if "b \<in> set as" for b
    proof (rule ccontr)
      assume "H b \<noteq> []"
      then have "a_id b = k" using Cons.prems(2) that by simp
      then show False using Cons.prems(1) ka that by auto
    qed
    then have "concat (map H (a # as)) = H a" by simp
    then show ?thesis using Cons.prems(3) [of a] by (simp only: list.set_intros)
  qed
qed

lemma distinct_rows:
  assumes d: "distinct (map m_id ms)"
    and one: "\<And>m. length (G m) \<le> 1"
    and own: "\<And>m row. row \<in> set (G m) \<Longrightarrow> fst row = m"
  shows "distinct (map (\<lambda>row. m_id (fst row)) (concat (map G ms)))"
  using d
proof (induction ms)
  case Nil
  show ?case by simp
next
  case (Cons m ms)
  have ih: "distinct (map (\<lambda>row. m_id (fst row)) (concat (map G ms)))"
    using Cons.prems by (intro Cons.IH) simp
  have sub: "fst ` set (concat (map G ms)) \<subseteq> set ms" using own by auto
  have nm: "m_id m \<notin> m_id ` fst ` set (concat (map G ms))" using Cons.prems sub by auto
  have gm: "G m = [] \<or> (\<exists>row. G m = [row] \<and> fst row = m)"
  proof (cases "G m")
    case Nil
    then show ?thesis by simp
  next
    case (Cons row rest)
    then have "rest = []" using one [of m] by simp
    then show ?thesis using Cons own [of row m] by simp
  qed
  show ?case
  proof (cases "G m = []")
    case True
    then show ?thesis using ih by simp
  next
    case False
    then obtain row where row: "G m = [row]" "fst row = m" using gm by blast
    have "m_id m \<notin> set (map (\<lambda>row. m_id (fst row)) (concat (map G ms)))"
      using nm by (simp add: image_image)
    then show ?thesis using row ih by simp
  qed
qed

lemma readyMessages_distinct:
  assumes "distinct (map a_id (agents w))" and "distinct (map m_id (messages w))"
  shows "distinct (map (\<lambda>row. m_id (fst row)) (readyMessages w))"
proof -
  let ?inner = "\<lambda>m fa. concat (map (\<lambda>ta.
       if m_from_agent_id m = a_id fa \<and> m_to_agent_id m = a_id ta \<and> \<not> m_read_at m
          \<and> a_current_hub fa = Some town_square \<and> a_current_hub ta = Some town_square
       then [(m, a_type fa, a_type ta)] else []) (agents w))"
  let ?G = "\<lambda>m. concat (map (?inner m) (agents w))"
  have i1: "length (?inner m fa) \<le> 1" for m fa
    by (rule single_match [OF assms(1), where k = "m_to_agent_id m"]) (simp_all split: if_splits)
  have i2: "?inner m fa \<noteq> [] \<Longrightarrow> a_id fa = m_from_agent_id m" for m fa
    by (auto split: if_splits)
  have one: "length (?G m) \<le> 1" for m
    by (rule single_match [OF assms(1), where k = "m_from_agent_id m"]) (use i1 i2 in blast)+
  have own: "row \<in> set (?G m) \<Longrightarrow> fst row = m" for m row
    by (auto split: if_splits)
  have "distinct (map (\<lambda>row. m_id (fst row)) (concat (map ?G (messages w))))"
    using assms(2) one own by (rule distinct_rows)
  then show ?thesis by (simp add: readyMessages_def)
qed

lemma deliverMessage_calls: "calls (snd (deliverMessage x row w)) = calls w + 1"
  by (cases row)
     (auto simp: deliverMessage_def update_messages_def emit_def Let_def split: outcome.splits)

lemma for_each_deliver_calls:
  "calls (snd (for_each rows (deliverMessage x) w)) \<le> calls w + length rows
   \<and> (fst (for_each rows (deliverMessage x) w) = Return ()
        \<longrightarrow> calls (snd (for_each rows (deliverMessage x) w)) = calls w + length rows)"
proof (induction rows arbitrary: w)
  case Nil
  show ?case by simp
next
  case (Cons y ys)
  obtain r w1 where d: "deliverMessage x y w = (r, w1)" by (cases "deliverMessage x y w")
  have c1: "calls w1 = calls w + 1" using deliverMessage_calls [of x y w] d by simp
  show ?case
  proof (cases r)
    case (Throw e)
    then show ?thesis using d c1 by simp
  next
    case (Return u)
    then show ?thesis using d c1 Cons.IH [of w1] by simp
  qed
qed

lemma read_never_selected:
  assumes k: "keys_unique w" and m: "m \<in> set (messages w)" and r: "m_read_at m"
  shows "m_id m \<notin> m_id ` fst ` set (readyMessages (ticks xs w))"
proof
  let ?w = "ticks xs w"
  assume "m_id m \<in> m_id ` fst ` set (readyMessages ?w)"
  then obtain row where row: "row \<in> set (readyMessages ?w)" "m_id (fst row) = m_id m" by auto
  then have u: "fst row \<in> set (messages ?w)" "\<not> m_read_at (fst row)"
    unfolding set_readyMessages by auto
  obtain i where i: "i < length (messages w)" "messages w ! i = m"
    using m by (auto simp: in_set_conv_nth)
  obtain j where j: "j < length (messages ?w)" "messages ?w ! j = fst row"
    using u(1) by (auto simp: in_set_conv_nth)
  have kept: "messages_kept w ?w" by (rule ticks_messages_kept)
  have il: "i < length (messages ?w)" using kept i(1) by (simp add: messages_kept_def)
  have ii: "m_id (messages ?w ! i) = m_id m" "m_read_at (messages ?w ! i)"
    using kept i r by (simp_all add: messages_kept_def)
  have "distinct (map m_id (messages ?w))"
    using ticks_keys [OF k, of xs] by (simp add: keys_unique_def)
  then have "inj_on m_id (set (messages ?w))" "distinct (messages ?w)"
    by (simp_all add: distinct_map)
  moreover have "m_id (messages ?w ! i) = m_id (messages ?w ! j)" using ii(1) j(2) row(2) by simp
  ultimately have "messages ?w ! i = messages ?w ! j"
    using il j(1) by (auto dest: inj_onD)
  then show False using ii(2) j(2) u(2) by simp
qed




end
